theory Spec2Isabelle
  imports Complex_Main "HOL-Library.Word" "HOL-Library.Signed_Division"
begin

chapter \<open>The filled-path core of fastuidraw (src/fastuidraw/painter/filled\_path.cpp)\<close>

section \<open>The program\<close>

subsection \<open>Machine integers\<close>

text \<open>
  A C++ \<open>int\<close> and an \<open>unsigned int\<close> are 32 bits wide. Where a statement ranges over
  every value of the type they are words: \<open>+\<close>, \<open>-\<close> and \<open>*\<close> wrap around, \<open>sint\<close> reads
  the signed value, \<open><s\<close> is the signed comparison. The remainder \<open>%\<close> of C++ truncates
  towards zero, which is \<open>smod\<close> on the signed values.
\<close>

type_synonym c_int = "32 word"
type_synonym c_uint = "32 word"

definition c_rem :: "c_int \<Rightarrow> c_int \<Rightarrow> c_int" where
  "c_rem a b = word_of_int (sint a smod sint b)"

text \<open>
  Modelled from the spec: \<open>fastuidraw::t_abs\<close>, a template of a utility header that is
  not among the source files; the odd-even rule is read with \<open>|w|\<close>, the absolute value,
  whose negation wraps on the 32-bit \<open>int\<close>. \<open>std::abs\<close> of the C++ library is the same
  function on \<open>int\<close>.
\<close>

definition t_abs :: "c_int \<Rightarrow> c_int" where
  "t_abs v = (if v <s 0 then - v else v)"

definition std_abs :: "c_int \<Rightarrow> c_int" where
  "std_abs v = (if v <s 0 then - v else v)"

subsection \<open>The four standard fill rules (lines 174--196)\<close>

definition fcn_non_zero_fill_rule :: "c_int \<Rightarrow> bool" where
  "fcn_non_zero_fill_rule w = (w \<noteq> 0)"

definition fcn_complelemt_non_zero_fill_rule :: "c_int \<Rightarrow> bool" where
  "fcn_complelemt_non_zero_fill_rule w = (w = 0)"

definition fcn_odd_even_fill_rule :: "c_int \<Rightarrow> bool" where
  "fcn_odd_even_fill_rule w = (c_rem (t_abs w) 2 = 1)"

definition fcn_complement_odd_even_fill_rule :: "c_int \<Rightarrow> bool" where
  "fcn_complement_odd_even_fill_rule w = (c_rem w 2 = 0)"

subsection \<open>Chunk identifiers (FilledPath::Subset::chunk\_from\_winding\_number, lines 2906--2924)\<close>

text \<open>
  Modelled from the spec: the enumeration \<open>PainterEnums::fill_rule_t\<close> is declared in a
  header that is not among the source files. The spec reserves the chunks 0..3 for the
  four standard fill rules, names chunk 2 the complement-nonzero one and starts the
  chunks of the single winding numbers at 4.
\<close>

definition complement_nonzero_fill_rule :: c_uint where
  "complement_nonzero_fill_rule = 2"

definition fill_rule_data_count :: c_uint where
  "fill_rule_data_count = 4"

definition chunk_from_winding_number :: "c_int \<Rightarrow> c_uint" where
  "chunk_from_winding_number winding_number =
     (if winding_number = 0 then complement_nonzero_fill_rule
      else let v = std_abs winding_number;
               sg = (if winding_number <s 0 then 1 else 0)
           in fill_rule_data_count + sg + 2 * (v - 1))"

text \<open>
  The return statement computes \<open>fill_rule_data_count + sg + 2 * (value - 1)\<close> in \<open>int\<close>
  and converts the sum to \<open>unsigned int\<close>; an \<open>int\<close> operation whose exact result is not
  a value of \<open>int\<close> is undefined in C++, where the words above wrap around.
  \<open>no_int_overflow w\<close> says that the exact result of every \<open>int\<close> operation of the
  function on \<open>w\<close> is a value of \<open>int\<close>: \<open>std::abs(w)\<close>, \<open>value - 1\<close>,
  \<open>2 * (value - 1)\<close>, \<open>fill_rule_data_count + sg\<close> and the sum.
\<close>

definition int_value :: "int \<Rightarrow> bool" where
  "int_value i = (- 2147483648 \<le> i \<and> i \<le> 2147483647)"

definition no_int_overflow :: "c_int \<Rightarrow> bool" where
  "no_int_overflow winding_number =
     (let v = \<bar>sint winding_number\<bar>;
          sg = (if sint winding_number < 0 then 1 else 0)
      in int_value v \<and> int_value (v - 1) \<and> int_value (2 * (v - 1))
         \<and> int_value (4 + sg) \<and> int_value (4 + sg + 2 * (v - 1)))"

text \<open>The chunk the spec assigns to a winding number \<open>w \<noteq> 0\<close>, over the integers.\<close>

definition chunk_formula :: "int \<Rightarrow> int" where
  "chunk_formula w = 4 + 2 * (\<bar>w\<bar> - 1) + (if w < 0 then 1 else 0)"

subsection \<open>Single-precision arithmetic and points\<close>

text \<open>
  A \<open>float\<close> is a real number and every arithmetic operation on floats rounds its exact
  result with \<open>rnd\<close>, the rounding of the machine, which the definitions take as a
  parameter; comparisons are exact. Overflow to infinity and NaN are outside the model.
  \<open>vec2\<close> is a pair, \<open>v[0]\<close> its first component and \<open>v[1]\<close> its second.
\<close>

type_synonym vec2 = "real \<times> real"

definition coord :: "vec2 \<Rightarrow> nat \<Rightarrow> real" where
  "coord v i = (if i = 0 then fst v else snd v)"

definition set_coord :: "vec2 \<Rightarrow> nat \<Rightarrow> real \<Rightarrow> vec2" where
  "set_coord v i x = (if i = 0 then (x, snd v) else (fst v, x))"

definition vec_add :: "(real \<Rightarrow> real) \<Rightarrow> vec2 \<Rightarrow> vec2 \<Rightarrow> vec2" where
  "vec_add rnd a b = (rnd (fst a + fst b), rnd (snd a + snd b))"

definition vec_sub :: "(real \<Rightarrow> real) \<Rightarrow> vec2 \<Rightarrow> vec2 \<Rightarrow> vec2" where
  "vec_sub rnd a b = (rnd (fst a - fst b), rnd (snd a - snd b))"

definition scalar_mul :: "(real \<Rightarrow> real) \<Rightarrow> real \<Rightarrow> vec2 \<Rightarrow> vec2" where
  "scalar_mul rnd s a = (rnd (s * fst a), rnd (s * snd a))"

subsection \<open>Corners of a box (lines 308--330)\<close>

definition box_max_x_flag :: nat where "box_max_x_flag = 1"

definition box_max_y_flag :: nat where "box_max_y_flag = 2"

definition box_min_x_min_y :: nat where "box_min_x_min_y = or 0 0"

definition box_min_x_max_y :: nat where "box_min_x_max_y = or 0 box_max_y_flag"

definition box_max_x_max_y :: nat where "box_max_x_max_y = or box_max_x_flag box_max_y_flag"

definition box_max_x_min_y :: nat where "box_max_x_min_y = box_max_x_flag"

definition box_next_neighbor :: "nat \<Rightarrow> nat option" where
  "box_next_neighbor v =
     (if v \<le> 3
      then Some ([box_min_x_max_y, box_min_x_min_y, box_max_x_max_y, box_max_x_min_y] ! v)
      else None)"

subsection \<open>SubPath::SubContourPoint (lines 335--392, 1033--1070)\<close>

text \<open>
  \<open>corner_point_type\<close> and \<open>box_next_neighbor\<close> assert their precondition; a failed
  assertion is the value \<open>None\<close>. \<open>new_SubContourPoint\<close> is the constructor from a point,
  \<open>split_SubContourPoint\<close> the one for a point made by a split.
\<close>

datatype on_boundary_t = on_min_boundary | on_max_boundary | not_on_boundary

record SubContourPoint =
  m_pt :: vec2
  m_start_tessellated_edge :: bool
  m_boundary_type :: "on_boundary_t \<times> on_boundary_t"
  m_corner_point_type :: nat

definition boundary_type :: "SubContourPoint \<Rightarrow> nat \<Rightarrow> on_boundary_t" where
  "boundary_type p i = (if i = 0 then fst (m_boundary_type p) else snd (m_boundary_type p))"

definition is_corner_point :: "SubContourPoint \<Rightarrow> bool" where
  "is_corner_point p =
     (boundary_type p 0 \<noteq> not_on_boundary \<and> boundary_type p 1 \<noteq> not_on_boundary)"

definition corner_point_type :: "SubContourPoint \<Rightarrow> nat option" where
  "corner_point_type p =
     (if is_corner_point p \<and> m_corner_point_type p \<le> 3
      then Some (m_corner_point_type p) else None)"

definition new_SubContourPoint :: "vec2 \<Rightarrow> bool \<Rightarrow> SubContourPoint" where
  "new_SubContourPoint p start =
     \<lparr>m_pt = p, m_start_tessellated_edge = start,
      m_boundary_type = (not_on_boundary, not_on_boundary),
      m_corner_point_type = 4\<rparr>"

definition split_SubContourPoint ::
  "SubContourPoint \<Rightarrow> SubContourPoint \<Rightarrow> vec2 \<Rightarrow> nat \<Rightarrow> on_boundary_t \<Rightarrow> SubContourPoint" where
  "split_SubContourPoint a b pt split_coordinate tp =
     (let unsplit_coordinate = 1 - split_coordinate;
          u = (if boundary_type a unsplit_coordinate = boundary_type b unsplit_coordinate
               then boundary_type a unsplit_coordinate else not_on_boundary);
          bt = (if split_coordinate = 0 then (tp, u) else (u, tp));
          corner = (fst bt \<noteq> not_on_boundary \<and> snd bt \<noteq> not_on_boundary)
      in \<lparr>m_pt = pt, m_start_tessellated_edge = True, m_boundary_type = bt,
          m_corner_point_type =
            (if corner
             then or (or 0 (if fst bt = on_max_boundary then box_max_x_flag else 0))
                     (if snd bt = on_max_boundary then box_max_y_flag else 0)
             else 4)\<rparr>)"

subsection \<open>SubPath::post\_process\_sub\_contour (lines 1285--1343)\<close>

text \<open>
  The loop over the contour is \<open>walk_corners\<close>: it ends with the two counters, with
  \<open>NotAlongBoundary\<close> where the source returns 0 from inside the loop, or with a failed
  assertion. The function returns the winding offset and the contour as it leaves it.
  The counters are far from the ends of the \<open>int\<close> range (at most the length of the
  contour), so they are integers; \<open>%\<close> and \<open>/\<close> truncate (\<open>smod\<close>, \<open>sdiv\<close>).
\<close>

type_synonym SubContour = "SubContourPoint list"

datatype corner_walk = AssertionFailed | NotAlongBoundary | Walked int int

fun walk_corners :: "SubContour \<Rightarrow> nat \<Rightarrow> int \<Rightarrow> int \<Rightarrow> corner_walk" where
  "walk_corners [] prev_corner_type forwards_counter backwards_counter =
     Walked forwards_counter backwards_counter"
| "walk_corners (p # ps) prev_corner_type forwards_counter backwards_counter =
     (if \<not> is_corner_point p then NotAlongBoundary
      else case corner_point_type p of
          None \<Rightarrow> AssertionFailed
        | Some corner_type \<Rightarrow>
           (case box_next_neighbor prev_corner_type of
              None \<Rightarrow> AssertionFailed
            | Some n \<Rightarrow>
               if corner_type = n
               then walk_corners ps corner_type (forwards_counter + 1) backwards_counter
               else (case box_next_neighbor corner_type of
                       None \<Rightarrow> AssertionFailed
                     | Some m \<Rightarrow>
                        if prev_corner_type = m
                        then walk_corners ps corner_type forwards_counter (backwards_counter + 1)
                        else NotAlongBoundary)))"

definition post_process_sub_contour :: "SubContour \<Rightarrow> (int \<times> SubContour) option" where
  "post_process_sub_contour C =
     (if C = [] \<or> \<not> is_corner_point (last C) then Some (0, C)
      else case corner_point_type (last C) of
          None \<Rightarrow> None
        | Some prev_corner_type \<Rightarrow>
           (case walk_corners C prev_corner_type 0 0 of
              AssertionFailed \<Rightarrow> None
            | NotAlongBoundary \<Rightarrow> Some (0, C)
            | Walked forwards_counter backwards_counter \<Rightarrow>
               (let counter = backwards_counter - forwards_counter
                in if counter smod 4 = 0 then Some (counter sdiv 4, [])
                   else Some (0, C))))"

subsection \<open>SubPath and its split (lines 1076--1282, 1346--1398)\<close>

text \<open>
  Modelled from the spec: \<open>BoundingBox\<close>, a class of a utility header that is not among
  the source files; the split only builds one from its two corners and reads them back.
\<close>

record BoundingBox =
  min_point :: vec2
  max_point :: vec2

record SubPath =
  m_total_points :: nat
  m_bounds :: BoundingBox
  m_contours :: "SubContour list"
  m_winding_start :: int

definition new_SubPath :: "BoundingBox \<Rightarrow> SubContour list \<Rightarrow> int \<Rightarrow> SubPath" where
  "new_SubPath bb contours winding_start =
     \<lparr>m_total_points = foldl (\<lambda>n c. n + length c) 0 contours,
      m_bounds = bb, m_contours = contours, m_winding_start = winding_start\<rparr>"

definition size_max_ratio :: real where "size_max_ratio = 4"

definition recursion_depth :: int where "recursion_depth = 12"

definition points_per_subset :: nat where "points_per_subset = 64"

text \<open>
  \<open>choose_splitting_coordinate\<close>: the two counting loops are \<open>count_points\<close> (one contour)
  and \<open>count_contours\<close>; \<open>c_iter->back()\<close> on an empty contour is undefined in C++ and is
  \<open>None\<close> here.
\<close>

type_synonym ivec2 = "int \<times> int"

definition incr :: "ivec2 \<Rightarrow> nat \<Rightarrow> ivec2" where
  "incr v i = (if i = 0 then (fst v + 1, snd v) else (fst v, snd v + 1))"

definition count_coordinate ::
  "vec2 \<Rightarrow> vec2 \<Rightarrow> vec2 \<Rightarrow> nat \<Rightarrow> ivec2 \<times> ivec2 \<Rightarrow> ivec2 \<times> ivec2" where
  "count_coordinate mid_pt prev_pt pt i st =
     (let number_points_before = fst st; number_points_after = snd st;
          prev_b = (coord prev_pt i < coord mid_pt i);
          b = (coord pt i < coord mid_pt i);
          before1 = (if b \<or> coord pt i = coord mid_pt i
                     then incr number_points_before i else number_points_before);
          after1 = (if \<not> b \<or> coord pt i = coord mid_pt i
                    then incr number_points_after i else number_points_after)
      in if coord prev_pt i \<noteq> coord mid_pt i \<and> prev_b \<noteq> b
         then (incr before1 i, incr after1 i) else (before1, after1))"

fun count_points :: "vec2 \<Rightarrow> vec2 \<Rightarrow> SubContour \<Rightarrow> ivec2 \<times> ivec2 \<Rightarrow> ivec2 \<times> ivec2" where
  "count_points mid_pt prev_pt [] st = st"
| "count_points mid_pt prev_pt (p # ps) st =
     count_points mid_pt (m_pt p) ps
       (count_coordinate mid_pt prev_pt (m_pt p) 1
          (count_coordinate mid_pt prev_pt (m_pt p) 0 st))"

fun count_contours :: "vec2 \<Rightarrow> SubContour list \<Rightarrow> ivec2 \<times> ivec2 \<Rightarrow> (ivec2 \<times> ivec2) option" where
  "count_contours mid_pt [] st = Some st"
| "count_contours mid_pt (c # cs) st =
     (if c = [] then None
      else count_contours mid_pt cs (count_points mid_pt (m_pt (last c)) c st))"

definition choose_splitting_coordinate ::
  "(real \<Rightarrow> real) \<Rightarrow> SubPath \<Rightarrow> vec2 \<Rightarrow> nat option" where
  "choose_splitting_coordinate rnd P mid_pt =
     (let wh = vec_sub rnd (max_point (m_bounds P)) (min_point (m_bounds P))
      in if size_max_ratio > 0 \<and> fst wh \<ge> rnd (size_max_ratio * snd wh) then Some 0
         else if size_max_ratio > 0 \<and> snd wh \<ge> rnd (size_max_ratio * fst wh) then Some 1
         else case count_contours mid_pt (m_contours P) ((0, 0), (0, 0)) of
             None \<Rightarrow> None
           | Some (number_points_before, number_points_after) \<Rightarrow>
              (let number_points = (fst number_points_before + fst number_points_after,
                                    snd number_points_before + snd number_points_after)
               in if fst number_points < snd number_points then Some 0 else Some 1))"

text \<open>
  \<open>split_contour\<close>: the loop is \<open>split_contour_loop\<close>, which appends to the two child
  contours; \<open>split_pt\<close> is only read where the source has computed it. \<open>src.back()\<close> on
  an empty contour is \<open>None\<close>. \<open>split_contours\<close> is the loop of \<open>split\<close> over the contours,
  which drops a child contour that ended empty.
\<close>

definition compute_spit_point :: "(real \<Rightarrow> real) \<Rightarrow> vec2 \<Rightarrow> vec2 \<Rightarrow> nat \<Rightarrow> real \<Rightarrow> vec2" where
  "compute_spit_point rnd a b splitting_coordinate splitting_value =
     (let n = rnd (splitting_value - coord a splitting_coordinate);
          d = rnd (coord b splitting_coordinate - coord a splitting_coordinate);
          t = rnd (n / d);
          aa = coord a (1 - splitting_coordinate);
          bb = coord b (1 - splitting_coordinate)
      in set_coord (set_coord (0, 0) splitting_coordinate splitting_value)
           (1 - splitting_coordinate) (rnd (rnd (rnd (1 - t) * aa) + rnd (t * bb))))"

fun split_contour_loop ::
  "(real \<Rightarrow> real) \<Rightarrow> nat \<Rightarrow> real \<Rightarrow> SubContourPoint \<Rightarrow> SubContour
     \<Rightarrow> SubContour \<times> SubContour \<Rightarrow> SubContour \<times> SubContour" where
  "split_contour_loop rnd splitting_coordinate splitting_value prev_pt [] Cs = Cs"
| "split_contour_loop rnd splitting_coordinate splitting_value prev_pt (pt # rest) Cs =
     (let prev_b0 = (coord (m_pt prev_pt) splitting_coordinate \<le> splitting_value);
          b0 = (coord (m_pt pt) splitting_coordinate \<le> splitting_value);
          prev_b1 = (coord (m_pt prev_pt) splitting_coordinate \<ge> splitting_value);
          b1 = (coord (m_pt pt) splitting_coordinate \<ge> splitting_value);
          split_pt = compute_spit_point rnd (m_pt prev_pt) (m_pt pt)
                       splitting_coordinate splitting_value;
          C0a = (if prev_b0 \<noteq> b0
                 then fst Cs @ [split_SubContourPoint prev_pt pt split_pt
                                  splitting_coordinate on_max_boundary]
                 else fst Cs);
          C0b = (if b0 then C0a @ [pt] else C0a);
          C1a = (if prev_b1 \<noteq> b1
                 then snd Cs @ [split_SubContourPoint prev_pt pt split_pt
                                  splitting_coordinate on_min_boundary]
                 else snd Cs);
          C1b = (if b1 then C1a @ [pt] else C1a)
      in split_contour_loop rnd splitting_coordinate splitting_value pt rest (C0b, C1b))"

definition split_contour ::
  "(real \<Rightarrow> real) \<Rightarrow> SubContour \<Rightarrow> nat \<Rightarrow> real
     \<Rightarrow> SubContour \<times> SubContour \<times> int \<times> int \<Rightarrow> (SubContour \<times> SubContour \<times> int \<times> int) option" where
  "split_contour rnd src splitting_coordinate splitting_value st =
     (case st of (C0, C1, C0_winding_start, C1_winding_start) \<Rightarrow>
        if src = [] then None
        else let Cs = split_contour_loop rnd splitting_coordinate splitting_value
                        (last src) src (C0, C1)
             in case post_process_sub_contour (fst Cs) of
                  None \<Rightarrow> None
                | Some (w0, C0') \<Rightarrow>
                   (case post_process_sub_contour (snd Cs) of
                      None \<Rightarrow> None
                    | Some (w1, C1') \<Rightarrow>
                        Some (C0', C1', C0_winding_start + w0, C1_winding_start + w1)))"

fun split_contours ::
  "(real \<Rightarrow> real) \<Rightarrow> nat \<Rightarrow> real \<Rightarrow> SubContour list
     \<Rightarrow> SubContour list \<times> SubContour list \<times> int \<times> int
     \<Rightarrow> (SubContour list \<times> SubContour list \<times> int \<times> int) option" where
  "split_contours rnd splitting_coordinate splitting_value [] st = Some st"
| "split_contours rnd splitting_coordinate splitting_value (c # cs) (C0, C1, ws0, ws1) =
     (case split_contour rnd c splitting_coordinate splitting_value ([], [], ws0, ws1) of
        None \<Rightarrow> None
      | Some (c0, c1, ws0', ws1') \<Rightarrow>
          split_contours rnd splitting_coordinate splitting_value cs
            (if c0 = [] then C0 else C0 @ [c0], if c1 = [] then C1 else C1 @ [c1], ws0', ws1'))"

definition split :: "(real \<Rightarrow> real) \<Rightarrow> SubPath \<Rightarrow> (SubPath \<times> SubPath) option" where
  "split rnd P =
     (let mid_pt = scalar_mul rnd (1 / 2)
                     (vec_add rnd (max_point (m_bounds P)) (min_point (m_bounds P)))
      in case choose_splitting_coordinate rnd P mid_pt of
           None \<Rightarrow> None
         | Some splitting_coordinate \<Rightarrow>
            (let B0_max = set_coord (max_point (m_bounds P)) splitting_coordinate
                            (coord mid_pt splitting_coordinate);
                 B1_min = set_coord (min_point (m_bounds P)) splitting_coordinate
                            (coord mid_pt splitting_coordinate);
                 B0 = \<lparr>min_point = min_point (m_bounds P), max_point = B0_max\<rparr>;
                 B1 = \<lparr>min_point = B1_min, max_point = max_point (m_bounds P)\<rparr>
             in case split_contours rnd splitting_coordinate (coord mid_pt splitting_coordinate)
                       (m_contours P) ([], [], 0, 0) of
                  None \<Rightarrow> None
                | Some (C0, C1, C0_winding_start, C1_winding_start) \<Rightarrow>
                    Some (new_SubPath B0 C0 (C0_winding_start + m_winding_start P),
                          new_SubPath B1 C1 (C1_winding_start + m_winding_start P))))"

subsection \<open>WindingSet, attributes and attribute data\<close>

text \<open>
  Modelled from the spec: \<open>PainterAttribute\<close> and \<open>PainterAttributeData\<close> are declared
  outside the source files. An attribute has three slots of four 32-bit values, each the
  bits of an unsigned or of a float (\<open>pack_float\<close>); attribute data is a list of attribute
  chunks and a list of index chunks.
\<close>

record WindingSet =
  m_bits :: "bool list"
  m_begin :: int
  m_end :: int

datatype generic_data = uint_value "32 word" | float_value real

type_synonym uvec4 = "generic_data \<times> generic_data \<times> generic_data \<times> generic_data"

record PainterAttribute =
  m_attrib0 :: uvec4
  m_attrib1 :: uvec4
  m_attrib2 :: uvec4

record PainterAttributeData =
  attribute_data_chunks :: "PainterAttribute list list"
  index_data_chunks :: "nat list list"

subsection \<open>per\_winding\_data and builder::fill\_indices (lines 198--250, 2030--2108)\<close>

text \<open>
  Winding numbers are bounded by the number of edges of the path and stay far from the
  ends of the \<open>int\<close> range: here they are integers, and \<open>is_even\<close> uses the truncating
  remainder. A \<open>std::map\<close> is its list of entries in the order of the keys, which is the
  order a loop over it visits them. A \<open>const_c_array\<close> into the index array is a
  \<open>sub_range\<close>: the offset of its first element and its length. \<open>fill_at\<close> and
  \<open>fill_indices\<close> assert; a failed assertion is \<open>None\<close>.
\<close>

record per_winding_data =
  m_indices :: "nat list"
  m_count :: nat
  m_winding_number :: int

definition new_per_winding_data :: "int \<Rightarrow> per_winding_data" where
  "new_per_winding_data pwinding_number =
     \<lparr>m_indices = [], m_count = 0, m_winding_number = pwinding_number\<rparr>"

definition add_index :: "nat \<Rightarrow> per_winding_data \<Rightarrow> per_winding_data" where
  "add_index idx d = d\<lparr>m_indices := m_indices d @ [idx], m_count := m_count d + 1\<rparr>"

definition count :: "per_winding_data \<Rightarrow> nat" where
  "count d = m_count d"

definition winding_number :: "per_winding_data \<Rightarrow> int" where
  "winding_number d = m_winding_number d"

type_synonym sub_range = "nat \<times> nat"

definition sub_array :: "'a list \<Rightarrow> nat \<Rightarrow> nat \<Rightarrow> 'a list" where
  "sub_array xs pos len = take len (drop pos xs)"

definition sub_array_from :: "'a list \<Rightarrow> nat \<Rightarrow> 'a list" where
  "sub_array_from xs pos = drop pos xs"

fun std_copy :: "'a list \<Rightarrow> nat \<Rightarrow> 'a list \<Rightarrow> 'a list" where
  "std_copy [] k dest = dest"
| "std_copy (x # xs) k dest = std_copy xs (k + 1) (dest[k := x])"

definition fill_at ::
  "per_winding_data \<Rightarrow> nat \<Rightarrow> nat list \<Rightarrow> (nat \<times> nat list \<times> sub_range) option" where
  "fill_at d offset dest =
     (if count d + offset \<le> length dest
      then Some (offset + count d, std_copy (m_indices d) offset dest, (offset, count d))
      else None)"

definition is_even :: "int \<Rightarrow> bool" where
  "is_even v = (v smod 2 = 0)"

type_synonym winding_index_hoard = "(int \<times> per_winding_data) list"

fun map_store :: "int \<Rightarrow> 'v \<Rightarrow> (int \<times> 'v) list \<Rightarrow> (int \<times> 'v) list" where
  "map_store k v [] = [(k, v)]"
| "map_store k v ((k', v') # m) =
     (if k < k' then (k, v) # (k', v') # m
      else if k = k' then (k, v) # m
      else (k', v') # map_store k v m)"

record index_counts =
  total :: nat
  num_odd :: nat
  num_even_non_zero :: nat
  num_zero :: nat

fun count_indices :: "winding_index_hoard \<Rightarrow> index_counts \<Rightarrow> index_counts" where
  "count_indices [] c = c"
| "count_indices ((w, d) # rest) c =
     (let cnt = count d;
          c1 = c\<lparr>total := total c + cnt\<rparr>
      in count_indices rest
           (if w = 0 then c1\<lparr>num_zero := num_zero c1 + cnt\<rparr>
            else if is_even w then c1\<lparr>num_even_non_zero := num_even_non_zero c1 + cnt\<rparr>
            else c1\<lparr>num_odd := num_odd c1 + cnt\<rparr>))"

record pack_state =
  current_odd :: nat
  current_even_non_zero :: nat
  current_zero :: nat
  indices :: "nat list"
  winding_map :: "(int \<times> sub_range) list"

fun pack_indices :: "winding_index_hoard \<Rightarrow> pack_state \<Rightarrow> pack_state option" where
  "pack_indices [] s = Some s"
| "pack_indices ((w, d) # rest) s =
     (if w = 0 then
        (if count d > 0 then
           (case fill_at d (current_zero s) (indices s) of
              None \<Rightarrow> None
            | Some (off, dest, r) \<Rightarrow>
                pack_indices rest (s\<lparr>current_zero := off, indices := dest,
                                      winding_map := map_store w r (winding_map s)\<rparr>))
         else pack_indices rest s)
      else if is_even w then
        (if count d > 0 then
           (case fill_at d (current_even_non_zero s) (indices s) of
              None \<Rightarrow> None
            | Some (off, dest, r) \<Rightarrow>
                pack_indices rest (s\<lparr>current_even_non_zero := off, indices := dest,
                                      winding_map := map_store w r (winding_map s)\<rparr>))
         else pack_indices rest s)
      else
        (if count d > 0 then
           (case fill_at d (current_odd s) (indices s) of
              None \<Rightarrow> None
            | Some (off, dest, r) \<Rightarrow>
                pack_indices rest (s\<lparr>current_odd := off, indices := dest,
                                      winding_map := map_store w r (winding_map s)\<rparr>))
         else pack_indices rest s))"

definition std_resize :: "'a list \<Rightarrow> nat \<Rightarrow> 'a \<Rightarrow> 'a list" where
  "std_resize xs n x = take n xs @ replicate (n - length xs) x"

definition fill_indices ::
  "winding_index_hoard \<Rightarrow> nat list \<Rightarrow> (int \<times> sub_range) list
     \<Rightarrow> (nat list \<times> (int \<times> sub_range) list \<times> nat \<times> nat) option" where
  "fill_indices hoard indices0 winding_map0 =
     (let c = count_indices hoard \<lparr>total = 0, num_odd = 0, num_even_non_zero = 0, num_zero = 0\<rparr>;
          s0 = \<lparr>current_odd = 0, current_even_non_zero = num_odd c,
                current_zero = num_even_non_zero c + num_odd c,
                indices = std_resize indices0 (total c) 0, winding_map = winding_map0\<rparr>
      in case pack_indices hoard s0 of
           None \<Rightarrow> None
         | Some s \<Rightarrow>
             if current_zero s = total c \<and> current_odd s = num_odd c
                \<and> current_even_non_zero s = current_odd s + num_even_non_zero c
             then Some (indices s, winding_map s, num_odd c, current_odd s + num_even_non_zero c)
             else None)"

subsection \<open>WindingSet (lines 462--507, 2348--2409)\<close>

text \<open>
  A \<open>std::set<int>\<close> is the list of its elements in increasing order. A bitset is a list
  of booleans; \<open>test\<close> asserts that the position is in range, and a failed assertion is
  \<open>None\<close>. \<open>fill_rule_bits\<close> is the loop of \<open>extract_from_fill_fule\<close>, \<open>common_bit_loop\<close>
  the loop of \<open>have_common_bit\<close>, which evaluates the second \<open>test\<close> only after the first
  was true. A fill rule (\<open>CustomFillRuleBase\<close>) is a predicate on winding numbers.
\<close>

type_synonym std_set_int = "int list"

definition test :: "bool list \<Rightarrow> int \<Rightarrow> bool option" where
  "test bits pos = (if 0 \<le> pos \<and> nat pos < length bits then Some (bits ! nat pos) else None)"

definition fill_rule_bits ::
  "(int \<Rightarrow> bool) \<Rightarrow> bool \<Rightarrow> int \<Rightarrow> bool list \<Rightarrow> int list \<Rightarrow> bool list" where
  "fill_rule_bits fill_rule flip begin0 bits ws =
     foldl (\<lambda>bs w. bs[nat (w - begin0) := (fill_rule w \<noteq> flip)]) bits ws"

definition extract_from_fill_fule ::
  "WindingSet \<Rightarrow> int \<Rightarrow> int \<Rightarrow> (int \<Rightarrow> bool) \<Rightarrow> bool \<Rightarrow> WindingSet option" where
  "extract_from_fill_fule this min_value max_value fill_rule flip =
     (let b = min_value; e = max_value + 1
      in if b \<le> e
         then Some \<lparr>m_bits = fill_rule_bits fill_rule flip b
                               (std_resize (m_bits this) (nat (e - b)) False) [b..e - 1],
                    m_begin = b, m_end = e\<rparr>
         else None)"

definition extract_from_set :: "WindingSet \<Rightarrow> std_set_int \<Rightarrow> WindingSet" where
  "extract_from_set this in_values =
     (if in_values = [] then \<lparr>m_bits = [], m_begin = 0, m_end = 0\<rparr>
      else let b = hd in_values; e = last in_values + 1
           in \<lparr>m_bits = foldl (\<lambda>bs v. bs[nat (v - b) := True])
                             (std_resize [] (nat (e - b)) False) in_values,
               m_begin = b, m_end = e\<rparr>)"

fun common_bit_loop :: "WindingSet \<Rightarrow> WindingSet \<Rightarrow> int list \<Rightarrow> bool option" where
  "common_bit_loop this obj [] = Some False"
| "common_bit_loop this obj (w # ws) =
     (case test (m_bits this) (w - m_begin this) of
        None \<Rightarrow> None
      | Some False \<Rightarrow> common_bit_loop this obj ws
      | Some True \<Rightarrow>
         (case test (m_bits obj) (w - m_begin obj) of
            None \<Rightarrow> None
          | Some True \<Rightarrow> Some True
          | Some False \<Rightarrow> common_bit_loop this obj ws))"

definition have_common_bit :: "WindingSet \<Rightarrow> WindingSet \<Rightarrow> bool option" where
  "have_common_bit this obj =
     common_bit_loop this obj
       [max (m_begin this) (m_begin obj) .. min (m_end this) (m_end obj) - 1]"

subsection \<open>DataWriter::write\_attributes (lines 982--1016, 2842--2878)\<close>

text \<open>
  Modelled from the spec: \<open>pack_float\<close>, of a utility header that is not among the source
  files, stores the bits of a float in a 32-bit slot. \<open>write_attribute\<close> is the body of the
  loop for the vertex \<open>i\<close>; reading an array past its end asserts (\<open>None\<close>).
\<close>

record per_attrib_chunk =
  m_attribs :: "PainterAttribute list"
  m_per_pt_winding_set :: "WindingSet list"

record per_index_chunk =
  m_indices_chunk :: "nat list"
  m_attrib_chunk :: nat

record DataWriterPrivate =
  m_subset_selector :: "nat list"
  m_attribute_chunks :: "per_attrib_chunk list"
  m_index_chunks :: "per_index_chunk list"
  m_complement_winding_rule :: WindingSet
  m_winding_rule :: WindingSet

definition pack_float :: "real \<Rightarrow> generic_data" where
  "pack_float v = float_value v"

definition attrib_x :: "uvec4 \<Rightarrow> generic_data" where "attrib_x v = fst v"

definition attrib_y :: "uvec4 \<Rightarrow> generic_data" where "attrib_y v = fst (snd v)"

definition attrib_z :: "uvec4 \<Rightarrow> generic_data" where "attrib_z v = fst (snd (snd v))"

definition attrib_w :: "uvec4 \<Rightarrow> generic_data" where "attrib_w v = snd (snd (snd v))"

definition write_attribute ::
  "WindingSet \<Rightarrow> PainterAttribute list \<Rightarrow> WindingSet list \<Rightarrow> nat
     \<Rightarrow> PainterAttribute list \<Rightarrow> PainterAttribute list option" where
  "write_attribute complement src w_src i dst =
     (if i < length w_src
      then case have_common_bit complement (w_src ! i) of
             None \<Rightarrow> None
           | Some outside \<Rightarrow>
               Some (dst[i := (dst ! i)\<lparr>m_attrib0 :=
                       (attrib_x (m_attrib0 (src ! i)), attrib_y (m_attrib0 (src ! i)),
                        pack_float (if outside then 0 else 1),
                        attrib_w (m_attrib0 (dst ! i)))\<rparr>])
      else None)"

fun write_attributes_loop ::
  "WindingSet \<Rightarrow> PainterAttribute list \<Rightarrow> WindingSet list \<Rightarrow> nat list
     \<Rightarrow> PainterAttribute list \<Rightarrow> PainterAttribute list option" where
  "write_attributes_loop complement src w_src [] dst = Some dst"
| "write_attributes_loop complement src w_src (i # rest) dst =
     (case write_attribute complement src w_src i dst of
        None \<Rightarrow> None
      | Some dst' \<Rightarrow> write_attributes_loop complement src w_src rest dst')"

definition write_attributes ::
  "DataWriterPrivate \<Rightarrow> PainterAttribute list \<Rightarrow> nat \<Rightarrow> PainterAttribute list option" where
  "write_attributes d dst attribute_chunk =
     (if attribute_chunk < length (m_attribute_chunks d)
      then let src = m_attribs (m_attribute_chunks d ! attribute_chunk);
               w_src = m_per_pt_winding_set (m_attribute_chunks d ! attribute_chunk)
           in if length dst = length src
              then write_attributes_loop (m_complement_winding_rule d) src w_src
                     [0..<length dst] dst
              else None
      else None)"

subsection \<open>SubsetPrivate and its constructor (lines 883--980, 2413--2442, 2699--2705)\<close>

text \<open>
  A node has both children or none (\<open>m_children\<close> are set together): \<open>Childless\<close> and
  \<open>Parent\<close>. \<open>out_values\<close> holds the nodes in the order they were made, each known by
  its \<open>m_ID\<close>. The constructor returns the node and \<open>out_values\<close> as it leaves it, and
  \<open>None\<close> where the split met an empty contour. \<open>m_num_attributes\<close> and
  \<open>m_largest_index_block\<close> are not initialised by the source; they are 0 here.
\<close>

record SubsetFields =
  m_ID :: nat
  m_bounds_subset :: BoundingBox
  m_painter_data :: "PainterAttributeData option"
  m_winding_numbers :: "int list"
  m_windings_per_pt :: "WindingSet list"
  m_sizes_ready :: bool
  m_num_attributes :: nat
  m_largest_index_block :: nat
  m_sub_path :: "SubPath option"

datatype SubsetPrivate =
    Childless SubsetFields
  | Parent SubsetFields SubsetPrivate SubsetPrivate

definition new_SubsetFields :: "SubPath \<Rightarrow> nat list \<Rightarrow> SubsetFields" where
  "new_SubsetFields Q out_values =
     \<lparr>m_ID = length out_values, m_bounds_subset = m_bounds Q, m_painter_data = None,
      m_winding_numbers = [], m_windings_per_pt = [], m_sizes_ready = False,
      m_num_attributes = 0, m_largest_index_block = 0, m_sub_path = Some Q\<rparr>"

function new_SubsetPrivate ::
  "(real \<Rightarrow> real) \<Rightarrow> SubPath \<Rightarrow> int \<Rightarrow> nat list \<Rightarrow> (SubsetPrivate \<times> nat list) option" where
  "new_SubsetPrivate rnd Q max_recursion out_values =
     (let this = new_SubsetFields Q out_values;
          out1 = out_values @ [m_ID this]
      in if max_recursion > 0 \<and> m_total_points Q > points_per_subset
         then (case split rnd Q of
                 None \<Rightarrow> None
               | Some (C0, C1) \<Rightarrow>
                  if m_total_points C0 < m_total_points Q \<or> m_total_points C1 < m_total_points Q
                  then (case new_SubsetPrivate rnd C0 (max_recursion - 1) out1 of
                          None \<Rightarrow> None
                        | Some (child0, out2) \<Rightarrow>
                           (case new_SubsetPrivate rnd C1 (max_recursion - 1) out2 of
                              None \<Rightarrow> None
                            | Some (child1, out3) \<Rightarrow>
                                Some (Parent (this\<lparr>m_sub_path := None\<rparr>) child0 child1, out3)))
                  else Some (Childless this, out1))
         else Some (Childless this, out1))"
  by pat_completeness auto

termination
  by (relation "measure (\<lambda>(rnd, Q, max_recursion, out_values). nat max_recursion)") auto

declare new_SubsetPrivate.simps [simp del]

text \<open>\<open>FilledPathPrivate\<close>'s constructor, from the root \<open>SubPath\<close> of the tessellated path.\<close>

definition new_FilledPathPrivate ::
  "(real \<Rightarrow> real) \<Rightarrow> SubPath \<Rightarrow> (SubsetPrivate \<times> nat list) option" where
  "new_FilledPathPrivate rnd q = new_SubsetPrivate rnd q recursion_depth []"

subsection \<open>Baking a node (lines 813--871, 2112--2344, 2573--2695)\<close>

text \<open>
  Modelled from the spec: \<open>PainterAttributeData::set_data\<close> is not among the source
  files; it sizes the arrays with \<open>compute_sizes\<close> and lets \<open>fill_data\<close> write them, and
  \<open>attribute_data_chunk\<close> and \<open>index_data_chunk\<close> give the empty array past the last
  chunk. \<open>set_data_filler\<close> and \<open>set_data_merger\<close> are \<open>set_data\<close> with the two fillers of
  the source. Modelled from the spec: the chunks of the standard fill rules are 0
  (nonzero), 1 (odd-even), 2 (complement-nonzero) and 3 (complement-odd-even). Writing
  a chunk past the last one asserts (\<open>None\<close>).

  The constructor of \<open>builder\<close> runs the tessellator, which is not among the source
  files: a \<open>builder\<close> here is the function from the \<open>SubPath\<close> to what the constructor
  leaves behind, the points, the hoard and the failure flag.
\<close>

record FillPoint =
  m_pt_fill :: vec2
  m_winding :: std_set_int

record AttributeDataFiller =
  m_points_filler :: "FillPoint list"
  m_indices_filler :: "nat list"
  m_nonzero_winding_indices :: sub_range
  m_zero_winding_indices :: sub_range
  m_odd_winding_indices :: sub_range
  m_even_winding_indices :: sub_range
  m_per_fill :: "(int \<times> sub_range) list"

definition nonzero_fill_rule :: c_uint where "nonzero_fill_rule = 0"

definition odd_even_fill_rule :: c_uint where "odd_even_fill_rule = 1"

definition complement_odd_even_fill_rule :: c_uint where "complement_odd_even_fill_rule = 3"

definition generate_attribute :: "FillPoint \<Rightarrow> PainterAttribute" where
  "generate_attribute src =
     \<lparr>m_attrib0 = (pack_float (fst (m_pt_fill src)), pack_float (snd (m_pt_fill src)),
                   pack_float 1, pack_float 0),
      m_attrib1 = (uint_value 0, uint_value 0, uint_value 0, uint_value 0),
      m_attrib2 = (uint_value 0, uint_value 0, uint_value 0, uint_value 0)\<rparr>"

definition range_of :: "'a list \<Rightarrow> sub_range \<Rightarrow> 'a list" where
  "range_of xs r = sub_array xs (fst r) (snd r)"

definition store_chunk :: "nat \<Rightarrow> 'a \<Rightarrow> 'a list \<Rightarrow> 'a list option" where
  "store_chunk k x chunks = (if k < length chunks then Some (chunks[k := x]) else None)"

definition attribute_data_chunk :: "PainterAttributeData \<Rightarrow> nat \<Rightarrow> PainterAttribute list" where
  "attribute_data_chunk p i =
     (if i < length (attribute_data_chunks p) then attribute_data_chunks p ! i else [])"

definition index_data_chunk :: "PainterAttributeData \<Rightarrow> nat \<Rightarrow> nat list" where
  "index_data_chunk p i =
     (if i < length (index_data_chunks p) then index_data_chunks p ! i else [])"

fun fill_per_fill_chunks ::
  "nat list \<Rightarrow> (int \<times> sub_range) list \<Rightarrow> nat list list \<Rightarrow> nat list list option" where
  "fill_per_fill_chunks index_data [] chunks = Some chunks"
| "fill_per_fill_chunks index_data ((w, r) # rest) chunks =
     (if w \<noteq> 0
      then case store_chunk (unat (chunk_from_winding_number (word_of_int w)))
                  (range_of index_data r) chunks of
             None \<Rightarrow> None
           | Some chunks' \<Rightarrow> fill_per_fill_chunks index_data rest chunks'
      else fill_per_fill_chunks index_data rest chunks)"

definition set_data_filler :: "AttributeDataFiller \<Rightarrow> PainterAttributeData option" where
  "set_data_filler f =
     (if m_per_fill f = [] then Some \<lparr>attribute_data_chunks = [], index_data_chunks = []\<rparr>
      else
        let smallest_winding = fst (hd (m_per_fill f));
            largest_winding = fst (last (m_per_fill f));
            largest_winding_idx = unat (chunk_from_winding_number (word_of_int largest_winding));
            smallest_winding_idx = unat (chunk_from_winding_number (word_of_int smallest_winding));
            number_index_chunks = 1 + max largest_winding_idx smallest_winding_idx;
            attributes = map generate_attribute (m_points_filler f);
            idx = m_indices_filler f
        in case store_chunk (unat odd_even_fill_rule) (range_of idx (m_odd_winding_indices f))
                  (replicate number_index_chunks []) of
             None \<Rightarrow> None
           | Some c1 \<Rightarrow>
          (case store_chunk (unat nonzero_fill_rule)
                  (range_of idx (m_nonzero_winding_indices f)) c1 of
             None \<Rightarrow> None
           | Some c2 \<Rightarrow>
          (case store_chunk (unat complement_odd_even_fill_rule)
                  (range_of idx (m_even_winding_indices f)) c2 of
             None \<Rightarrow> None
           | Some c3 \<Rightarrow>
          (case store_chunk (unat complement_nonzero_fill_rule)
                  (range_of idx (m_zero_winding_indices f)) c3 of
             None \<Rightarrow> None
           | Some c4 \<Rightarrow>
          (case fill_per_fill_chunks idx (m_per_fill f) c4 of
             None \<Rightarrow> None
           | Some c5 \<Rightarrow>
               Some \<lparr>attribute_data_chunks = [attributes], index_data_chunks = c5\<rparr>)))))"

definition set_data_merger :: "PainterAttributeData \<Rightarrow> PainterAttributeData \<Rightarrow> PainterAttributeData" where
  "set_data_merger a b =
     (let a_attribs = attribute_data_chunk a 0;
          b_attribs = attribute_data_chunk b 0;
          number_index_chunks = max (length (index_data_chunks a)) (length (index_data_chunks b))
      in \<lparr>attribute_data_chunks = [a_attribs @ b_attribs],
          index_data_chunks =
            map (\<lambda>chunk. index_data_chunk a chunk
                          @ map (\<lambda>i. i + length a_attribs) (index_data_chunk b chunk))
                [0..<number_index_chunks]\<rparr>)"

definition fill_winding_data_filler :: "AttributeDataFiller \<Rightarrow> WindingSet list \<Rightarrow> WindingSet list" where
  "fill_winding_data_filler f dst =
     map (\<lambda>v. extract_from_set (std_resize dst (length (m_points_filler f))
                                   \<lparr>m_bits = [], m_begin = 0, m_end = 0\<rparr> ! v)
                                (m_winding (m_points_filler f ! v)))
         [0..<length (m_points_filler f)]"

definition fill_winding_data_merger :: "WindingSet list \<Rightarrow> WindingSet list \<Rightarrow> WindingSet list" where
  "fill_winding_data_merger a b = a @ b"

type_synonym builder = "SubPath \<Rightarrow> FillPoint list \<times> winding_index_hoard \<times> bool"

definition std_set_of :: "int list \<Rightarrow> std_set_int" where
  "std_set_of xs = sort (remdups xs)"

definition make_ready_from_sub_path :: "builder \<Rightarrow> SubsetFields \<Rightarrow> SubsetFields option" where
  "make_ready_from_sub_path B d =
     (case m_sub_path d of
        None \<Rightarrow> None
      | Some P \<Rightarrow>
         if m_painter_data d \<noteq> None \<or> m_sizes_ready d then None
         else case B P of (points, hoard, failed) \<Rightarrow>
           (case fill_indices hoard [] [] of
              None \<Rightarrow> None
            | Some (idx, per_fill, even_non_zero_start, zero_start) \<Rightarrow>
               let filler = \<lparr>m_points_filler = points, m_indices_filler = idx,
                      m_nonzero_winding_indices = (0, length (sub_array idx 0 zero_start)),
                      m_zero_winding_indices = (zero_start, length (sub_array_from idx zero_start)),
                      m_odd_winding_indices = (0, length (sub_array idx 0 even_non_zero_start)),
                      m_even_winding_indices =
                        (even_non_zero_start, length (sub_array_from idx even_non_zero_start)),
                      m_per_fill = per_fill\<rparr>;
                   m1 = max (snd (m_nonzero_winding_indices filler))
                            (snd (m_zero_winding_indices filler));
                   m2 = max (snd (m_odd_winding_indices filler))
                            (snd (m_even_winding_indices filler))
               in if list_ex (\<lambda>e. snd (snd e) = 0) per_fill then None
                  else case set_data_filler filler of
                         None \<Rightarrow> None
                       | Some data \<Rightarrow>
                           Some (d\<lparr>m_sizes_ready := True,
                                   m_largest_index_block := max m1 m2,
                                   m_num_attributes := length points,
                                   m_winding_numbers := m_winding_numbers d @ map fst per_fill,
                                   m_painter_data := Some data,
                                   m_windings_per_pt :=
                                     fill_winding_data_filler filler (m_windings_per_pt d),
                                   m_sub_path := None\<rparr>)))"

definition subset_fields :: "SubsetPrivate \<Rightarrow> SubsetFields" where
  "subset_fields t = (case t of Childless d \<Rightarrow> d | Parent d c0 c1 \<Rightarrow> d)"

fun make_ready :: "builder \<Rightarrow> SubsetPrivate \<Rightarrow> SubsetPrivate option" where
  "make_ready B (Childless d) =
     (if m_painter_data d = None
      then (if m_sub_path d \<noteq> None
            then map_option Childless (make_ready_from_sub_path B d)
            else None)
      else Some (Childless d))"
| "make_ready B (Parent d child0 child1) =
     (if m_painter_data d = None
      then (if m_sub_path d \<noteq> None then None
            else case make_ready B child0 of
                None \<Rightarrow> None
              | Some c0 \<Rightarrow>
                 (case make_ready B child1 of
                    None \<Rightarrow> None
                  | Some c1 \<Rightarrow>
                     (case (m_painter_data (subset_fields c0), m_painter_data (subset_fields c1)) of
                        (Some a, Some b) \<Rightarrow>
                          let d1 = d\<lparr>m_painter_data := Some (set_data_merger a b),
                                     m_windings_per_pt :=
                                       fill_winding_data_merger (m_windings_per_pt (subset_fields c0))
                                         (m_windings_per_pt (subset_fields c1)),
                                     m_winding_numbers :=
                                       std_set_of (m_winding_numbers (subset_fields c0)
                                                   @ m_winding_numbers (subset_fields c1))\<rparr>
                          in if m_sizes_ready d1 then Some (Parent d1 c0 c1)
                             else if m_sizes_ready (subset_fields c0) \<and> m_sizes_ready (subset_fields c1)
                             then Some (Parent
                                    (d1\<lparr>m_sizes_ready := True,
                                        m_num_attributes := m_num_attributes (subset_fields c0)
                                                            + m_num_attributes (subset_fields c1),
                                        m_largest_index_block :=
                                          m_largest_index_block (subset_fields c0)
                                          + m_largest_index_block (subset_fields c1)\<rparr>) c0 c1)
                             else None
                      | _ \<Rightarrow> None)))
      else Some (Parent d child0 child1))"

subsection \<open>Selecting subsets (lines 2470--2571)\<close>








subsection \<open>PointHoard and the tessellation callbacks (lines 252--306, 516--576, 1402--1425, 1754--1868, 1909--1949)\<close>

text \<open>
  \<open>CoordinateConverter::iapply\<close> maps a point to the integer grid in single precision;
  \<open>static_cast<int>\<close> truncates toward zero (values outside the range of \<open>int\<close> are
  outside the model).
\<close>

definition scalar_div :: "(real \<Rightarrow> real) \<Rightarrow> vec2 \<Rightarrow> real \<Rightarrow> vec2" where
  "scalar_div rnd a s = (rnd (fst a / s), rnd (snd a / s))"

definition static_cast_int :: "real \<Rightarrow> int" where
  "static_cast_int r = (if 0 \<le> r then \<lfloor>r\<rfloor> else \<lceil>r\<rceil>)"

record CoordinateConverter =
  m_delta_fudge :: real
  m_scale :: vec2
  m_translate :: vec2
  m_scale_f :: vec2
  m_translate_f :: vec2

definition iapply :: "(real \<Rightarrow> real) \<Rightarrow> CoordinateConverter \<Rightarrow> vec2 \<Rightarrow> int \<times> int" where
  "iapply rnd cv pt =
     (let r = (rnd (fst (m_scale_f cv) * fst (vec_sub rnd pt (m_translate_f cv))),
               rnd (snd (m_scale_f cv) * snd (vec_sub rnd pt (m_translate_f cv))))
      in (static_cast_int (fst r), static_cast_int (snd r)))"

text \<open>
  \<open>PointHoard\<close>: \<open>m_map\<close> is the \<open>std::map\<close> from grid points to vertex IDs, which is only
  looked up by key and extended by keys it does not hold, kept here in insertion order;
  \<open>m_pts\<close> is the vector of \<open>FillPoint\<close>s it refers to. \<open>fetch\<close> returns the ID of the
  point on the same grid point if there is one, and appends a new \<open>FillPoint\<close> with an
  empty winding set otherwise. \<open>point_at\<close> is \<open>operator[]\<close> and, like
  \<open>add_to_winding_set\<close>, asserts that the ID is in range (\<open>None\<close>);
  \<open>std_set_insert\<close> is \<open>std::set<int>::insert\<close> on the sorted list of the elements.
\<close>

record PointHoard =
  m_converter :: CoordinateConverter
  m_map :: "((int \<times> int) \<times> nat) list"
  m_pts :: "FillPoint list"

definition fetch :: "(real \<Rightarrow> real) \<Rightarrow> vec2 \<Rightarrow> PointHoard \<Rightarrow> nat \<times> PointHoard" where
  "fetch rnd pt h =
     (let ipt = iapply rnd (m_converter h) pt
      in case map_of (m_map h) ipt of
           Some v \<Rightarrow> (v, h)
         | None \<Rightarrow>
            (length (m_pts h),
             h\<lparr>m_pts := m_pts h @ [\<lparr>m_pt_fill = pt, m_winding = []\<rparr>],
               m_map := m_map h @ [(ipt, length (m_pts h))]\<rparr>))"

definition point_at :: "PointHoard \<Rightarrow> nat \<Rightarrow> vec2 option" where
  "point_at h v = (if v < length (m_pts h) then Some (m_pt_fill (m_pts h ! v)) else None)"

definition std_set_insert :: "int \<Rightarrow> std_set_int \<Rightarrow> std_set_int" where
  "std_set_insert w xs = (if w \<in> set xs then xs else insort w xs)"

definition add_to_winding_set :: "nat \<Rightarrow> int \<Rightarrow> PointHoard \<Rightarrow> PointHoard option" where
  "add_to_winding_set v winding h =
     (if v < length (m_pts h)
      then Some (h\<lparr>m_pts := (m_pts h)[v := (m_pts h ! v)
                      \<lparr>m_winding := std_set_insert winding (m_winding (m_pts h ! v))\<rparr>]\<rparr>)
      else None)"

text \<open>
  Modelled from the spec: the sentinel null vertex ID of the tessellator, whose header is
  not among the sources, taken to be the \<open>unsigned int\<close> with all bits set. The general
  properties below do not depend on its value; the examples only on the fact that the
  IDs 0 to 6 are not the null ID.
\<close>

definition FASTUIDRAW_GLU_NULL_CLIENT_ID :: nat where
  "FASTUIDRAW_GLU_NULL_CLIENT_ID = 4294967295"

text \<open>
  The state of a \<open>tesser\<close> that the callbacks read and write, and of \<open>non_zero_tesser\<close>,
  which extends it: \<open>m_hoard\<close> is the \<open>winding_index_hoard\<close> it fills and
  \<open>m_current_indices\<close>, a pointer to an entry of the hoard or null, is the key of that
  entry or \<open>None\<close>. \<open>m_temp_verts\<close> is a vector of three vertex IDs; writing it at an
  index that is not 0, 1 or 2 fails (\<open>None\<close>). The virtual function
  \<open>add_vertex_to_polygon\<close> is a parameter of the callbacks of the base class.
\<close>

record tesser =
  m_point_count :: nat
  m_points :: PointHoard
  m_temp_verts :: "nat \<times> nat \<times> nat"
  m_temp_vert_count :: nat
  m_triangulation_failed :: bool

record non_zero_tesser = tesser +
  m_winding_start_nz :: int
  m_hoard :: winding_index_hoard
  m_current_winding :: int
  m_current_indices :: "int option"

definition set_temp_vert :: "nat \<Rightarrow> nat \<Rightarrow> nat \<times> nat \<times> nat \<Rightarrow> (nat \<times> nat \<times> nat) option" where
  "set_temp_vert i v tv =
     (case tv of (v0, v1, v2) \<Rightarrow>
        if i = 0 then Some (v, v1, v2)
        else if i = 1 then Some (v0, v, v2)
        else if i = 2 then Some (v0, v1, v)
        else None)"

text \<open>
  \<open>tesser::temp_verts_non_degenerate_triangle\<close>: \<open>float_abs\<close> is \<open>t_abs\<close> on \<open>float\<close>,
  \<open>cross_product\<close> is \<open>v.x() * w.y() - v.y() * w.x()\<close> for \<open>v = p1 - p0\<close> and
  \<open>w = p2 - p0\<close>, each operation rounded.
\<close>

definition float_abs :: "real \<Rightarrow> real" where
  "float_abs x = (if x < 0 then - x else x)"

definition cross_product :: "(real \<Rightarrow> real) \<Rightarrow> vec2 \<Rightarrow> vec2 \<Rightarrow> vec2 \<Rightarrow> real" where
  "cross_product rnd p0 p1 p2 =
     (let v = vec_sub rnd p1 p0; w = vec_sub rnd p2 p0
      in rnd (rnd (fst v * snd w) - rnd (snd v * fst w)))"

definition temp_verts_non_degenerate_triangle ::
  "(real \<Rightarrow> real) \<Rightarrow> 'a tesser_scheme \<Rightarrow> bool option" where
  "temp_verts_non_degenerate_triangle rnd t =
     (case m_temp_verts t of (v0, v1, v2) \<Rightarrow>
        if v0 = v1 \<or> v0 = v2 \<or> v1 = v2 then Some False
        else case (point_at (m_points t) v0, point_at (m_points t) v1,
                   point_at (m_points t) v2) of
            (Some p0, Some p1, Some p2) \<Rightarrow>
              if p0 = p1 \<or> p0 = p2 \<or> p1 = p2 then Some False
              else Some (float_abs (cross_product rnd p0 p1 p2) > 0)
          | _ \<Rightarrow> None)"

text \<open>
  \<open>tesser::vertex_callBack\<close>; \<open>add_six_triangles\<close> is the body of its innermost \<open>if\<close>,
  which fetches the midpoints \<open>m01\<close>, \<open>m02\<close>, \<open>m12\<close> and the centroid \<open>c\<close>, in this
  order, and adds six triangles.
\<close>

type_synonym 'a add_vertex = "nat \<Rightarrow> 'a tesser_scheme \<Rightarrow> 'a tesser_scheme option"

definition add_triangle ::
  "'a add_vertex \<Rightarrow> nat \<Rightarrow> nat \<Rightarrow> nat \<Rightarrow> 'a tesser_scheme \<Rightarrow> 'a tesser_scheme option" where
  "add_triangle add_vertex_to_polygon a b c t =
     Option.bind (Option.bind (add_vertex_to_polygon a t) (add_vertex_to_polygon b))
       (add_vertex_to_polygon c)"

definition add_six_triangles ::
  "(real \<Rightarrow> real) \<Rightarrow> 'a add_vertex \<Rightarrow> 'a tesser_scheme \<Rightarrow> 'a tesser_scheme option" where
  "add_six_triangles rnd add_vertex_to_polygon t =
     (case m_temp_verts t of (v0, v1, v2) \<Rightarrow>
      case (point_at (m_points t) v0, point_at (m_points t) v1, point_at (m_points t) v2) of
        (Some p0, Some p1, Some p2) \<Rightarrow>
          (let m01 = scalar_mul rnd (1 / 2) (vec_add rnd p0 p1);
               m02 = scalar_mul rnd (1 / 2) (vec_add rnd p0 p2);
               m12 = scalar_mul rnd (1 / 2) (vec_add rnd p1 p2);
               c = scalar_div rnd (vec_add rnd (vec_add rnd p0 p1) p2) 3;
               (i01, h1) = fetch rnd m01 (m_points t);
               (i02, h2) = fetch rnd m02 h1;
               (i12, h3) = fetch rnd m12 h2;
               (ic, h4) = fetch rnd c h3;
               t4 = t\<lparr>m_points := h4\<rparr>
           in Option.bind (Option.bind (Option.bind (Option.bind (Option.bind
                (add_triangle add_vertex_to_polygon v0 i01 ic t4)
                (add_triangle add_vertex_to_polygon v0 ic i02))
                (add_triangle add_vertex_to_polygon ic v1 i12))
                (add_triangle add_vertex_to_polygon i01 v1 ic))
                (add_triangle add_vertex_to_polygon i02 ic v2))
                (add_triangle add_vertex_to_polygon ic i12 v2))
      | _ \<Rightarrow> None)"

definition vertex_callBack ::
  "(real \<Rightarrow> real) \<Rightarrow> 'a add_vertex \<Rightarrow> nat \<Rightarrow> 'a tesser_scheme \<Rightarrow> 'a tesser_scheme option" where
  "vertex_callBack rnd add_vertex_to_polygon vertex_id p =
     (let p1 = (if vertex_id = FASTUIDRAW_GLU_NULL_CLIENT_ID
                then p\<lparr>m_triangulation_failed := True\<rparr> else p)
      in case set_temp_vert (m_temp_vert_count p1) vertex_id (m_temp_verts p1) of
           None \<Rightarrow> None
         | Some tv \<Rightarrow>
            (let p2 = p1\<lparr>m_temp_verts := tv, m_temp_vert_count := m_temp_vert_count p1 + 1\<rparr>
             in if m_temp_vert_count p2 = 3
                then (let p3 = p2\<lparr>m_temp_vert_count := 0\<rparr>
                      in case tv of (v0, v1, v2) \<Rightarrow>
                         if v0 \<noteq> FASTUIDRAW_GLU_NULL_CLIENT_ID
                            \<and> v1 \<noteq> FASTUIDRAW_GLU_NULL_CLIENT_ID
                            \<and> v2 \<noteq> FASTUIDRAW_GLU_NULL_CLIENT_ID
                         then (case temp_verts_non_degenerate_triangle rnd p3 of
                                 None \<Rightarrow> None
                               | Some True \<Rightarrow> add_six_triangles rnd add_vertex_to_polygon p3
                               | Some False \<Rightarrow> Some p3)
                         else Some p3)
                else Some p2))"

text \<open>
  \<open>tesser::begin_callBack\<close> and the virtual functions of \<open>non_zero_tesser\<close>:
  \<open>on_begin_polygon\<close> makes the entry of the hoard at the reported winding number plus
  \<open>m_winding_start\<close> current, creating it if the hoard has none, and
  \<open>add_vertex_to_polygon\<close> appends the vertex to the current entry and inserts the
  winding number of that entry into the winding set of the vertex (a null
  \<open>m_current_indices\<close> is dereferenced: \<open>None\<close>).
\<close>

definition begin_callBack ::
  "(int \<Rightarrow> 'a tesser_scheme \<Rightarrow> 'a tesser_scheme) \<Rightarrow> int \<Rightarrow> 'a tesser_scheme \<Rightarrow> 'a tesser_scheme" where
  "begin_callBack on_begin_polygon winding_number0 p =
     on_begin_polygon winding_number0 (p\<lparr>m_temp_vert_count := 0\<rparr>)"

definition non_zero_on_begin_polygon :: "int \<Rightarrow> non_zero_tesser \<Rightarrow> non_zero_tesser" where
  "non_zero_on_begin_polygon winding_number0 t =
     (let w = winding_number0 + m_winding_start_nz t
      in if m_current_indices t = None \<or> m_current_winding t \<noteq> w
         then t\<lparr>m_hoard := (case map_of (m_hoard t) w of
                               None \<Rightarrow> map_store w (new_per_winding_data w) (m_hoard t)
                             | Some h \<Rightarrow> m_hoard t),
                 m_current_winding := w, m_current_indices := Some w\<rparr>
         else t)"

definition non_zero_add_vertex_to_polygon :: "nat \<Rightarrow> non_zero_tesser \<Rightarrow> non_zero_tesser option" where
  "non_zero_add_vertex_to_polygon vertex t =
     (case m_current_indices t of
        None \<Rightarrow> None
      | Some k \<Rightarrow>
         (case map_of (m_hoard t) k of
            None \<Rightarrow> None
          | Some d \<Rightarrow>
             (case add_to_winding_set vertex (winding_number (add_index vertex d)) (m_points t) of
                None \<Rightarrow> None
              | Some h \<Rightarrow>
                  Some (t\<lparr>m_hoard := map_store k (add_index vertex d) (m_hoard t),
                          m_points := h\<rparr>))))"

subsection \<open>Notions of the specification\<close>

text \<open>
  The 4-cycle \<open>mm \<rightarrow> mM \<rightarrow> MM \<rightarrow> Mm \<rightarrow> mm\<close> of the corners; the steps of a contour, from each
  point to the next, the first one from the last point to the first; forward steps go to
  the next corner of the cycle, backward steps to the previous one.
\<close>

definition cycle_next :: "nat \<Rightarrow> nat" where
  "cycle_next c = (if c = box_min_x_min_y then box_min_x_max_y
                   else if c = box_min_x_max_y then box_max_x_max_y
                   else if c = box_max_x_max_y then box_max_x_min_y
                   else box_min_x_min_y)"

definition cyclic_steps :: "SubContour \<Rightarrow> (nat \<times> nat) list" where
  "cyclic_steps C =
     zip (map m_corner_point_type (last C # butlast C)) (map m_corner_point_type C)"

definition forward_step :: "nat \<times> nat \<Rightarrow> bool" where
  "forward_step s = (snd s = cycle_next (fst s))"

definition backward_step :: "nat \<times> nat \<Rightarrow> bool" where
  "backward_step s = (fst s = cycle_next (snd s))"

definition forwards :: "SubContour \<Rightarrow> int" where
  "forwards C = int (length (filter forward_step (cyclic_steps C)))"

definition backwards :: "SubContour \<Rightarrow> int" where
  "backwards C = int (length (filter backward_step (cyclic_steps C)))"

definition degenerate_boundary :: "SubContour \<Rightarrow> bool" where
  "degenerate_boundary C =
     (C \<noteq> [] \<and> list_all is_corner_point C
      \<and> list_all (\<lambda>s. forward_step s \<or> backward_step s) (cyclic_steps C)
      \<and> (backwards C - forwards C) smod 4 = 0)"

definition point_ok :: "SubContourPoint \<Rightarrow> bool" where
  "point_ok p = (if is_corner_point p then m_corner_point_type p \<le> 3 else True)"

definition steps_from :: "nat \<Rightarrow> SubContour \<Rightarrow> (nat \<times> nat) list" where
  "steps_from prev C = zip (prev # map m_corner_point_type (butlast C)) (map m_corner_point_type C)"

text \<open>
  The invariant of every point the two constructors make: a corner point has a corner
  code in 0..3. A well-formed \<open>SubPath\<close> has no empty contour and only such points.
\<close>

definition wf_SubPath :: "SubPath \<Rightarrow> bool" where
  "wf_SubPath P = list_all (\<lambda>c. c \<noteq> [] \<and> list_all point_ok c) (m_contours P)"

text \<open>
  The stopping rule of the spec, read off a finished tree: \<open>Q\<close> is the \<open>SubPath\<close> the
  node was made from and \<open>depth_left\<close> the recursion depth that was left for it.
\<close>

fun split_as_stated :: "(real \<Rightarrow> real) \<Rightarrow> SubPath \<Rightarrow> int \<Rightarrow> SubsetPrivate \<Rightarrow> bool" where
  "split_as_stated rnd Q depth_left (Childless d) =
     (m_sub_path d = Some Q
      \<and> (m_total_points Q \<le> 64 \<or> depth_left \<le> 0
         \<or> (case split rnd Q of
               None \<Rightarrow> False
             | Some (C0, C1) \<Rightarrow>
                 m_total_points C0 \<ge> m_total_points Q \<and> m_total_points C1 \<ge> m_total_points Q)))"
| "split_as_stated rnd Q depth_left (Parent d child0 child1) =
     (m_sub_path d = None \<and> m_total_points Q > 64 \<and> depth_left > 0
      \<and> (case split rnd Q of
            None \<Rightarrow> False
          | Some (C0, C1) \<Rightarrow>
              (m_total_points C0 < m_total_points Q \<or> m_total_points C1 < m_total_points Q)
              \<and> split_as_stated rnd C0 (depth_left - 1) child0
              \<and> split_as_stated rnd C1 (depth_left - 1) child1))"

text \<open>
  The three classes of winding numbers and the indices of a class, in the order of the
  hoard; the invariant of \<open>per_winding_data\<close> (\<open>add_index\<close> keeps it).
\<close>

definition odd_winding :: "int \<Rightarrow> bool" where "odd_winding w = odd w"

definition even_non_zero_winding :: "int \<Rightarrow> bool" where "even_non_zero_winding w = (even w \<and> w \<noteq> 0)"

definition zero_winding :: "int \<Rightarrow> bool" where "zero_winding w = (w = 0)"

definition indices_of :: "(int \<Rightarrow> bool) \<Rightarrow> winding_index_hoard \<Rightarrow> nat list" where
  "indices_of sel hoard = concat (map (\<lambda>e. m_indices (snd e)) (filter (\<lambda>e. sel (fst e)) hoard))"

definition hoard_ok :: "winding_index_hoard \<Rightarrow> bool" where
  "hoard_ok hoard = list_all (\<lambda>e. m_count (snd e) = length (m_indices (snd e))) hoard"

text \<open>
  A winding set is well formed when its bitset is as long as its range; \<open>ws_has\<close> is
  membership. A vertex is on the boundary when its winding set has an element in the
  observed range that the fill rule does not select; \<open>written_attribute\<close> is the attribute
  \<open>write_attributes\<close> is to leave. \<open>baked\<close> is the node as selection sees it once its
  sizes are known.
\<close>

definition ws_ok :: "WindingSet \<Rightarrow> bool" where
  "ws_ok s = (m_begin s \<le> m_end s \<and> length (m_bits s) = nat (m_end s - m_begin s))"

definition ws_has :: "WindingSet \<Rightarrow> int \<Rightarrow> bool" where
  "ws_has s w = (m_begin s \<le> w \<and> w < m_end s \<and> m_bits s ! nat (w - m_begin s))"

definition on_boundary :: "(int \<Rightarrow> bool) \<Rightarrow> int \<Rightarrow> int \<Rightarrow> std_set_int \<Rightarrow> bool" where
  "on_boundary fill_rule min_winding max_winding windings =
     list_ex (\<lambda>w. min_winding \<le> w \<and> w \<le> max_winding \<and> \<not> fill_rule w) windings"

definition written_attribute ::
  "PainterAttribute \<Rightarrow> PainterAttribute \<Rightarrow> bool \<Rightarrow> PainterAttribute" where
  "written_attribute s d boundary =
     d\<lparr>m_attrib0 := (attrib_x (m_attrib0 s), attrib_y (m_attrib0 s),
                      float_value (if boundary then 0 else 1), attrib_w (m_attrib0 d))\<rparr>"




definition map_ok :: "PointHoard \<Rightarrow> bool" where
  "map_ok h = list_all (\<lambda>kv. snd kv < length (m_pts h)) (m_map h)"

definition triangle_accepted :: "(real \<Rightarrow> real) \<Rightarrow> PointHoard \<Rightarrow> nat \<Rightarrow> nat \<Rightarrow> nat \<Rightarrow> bool" where
  "triangle_accepted rnd h a b c =
     (a \<noteq> FASTUIDRAW_GLU_NULL_CLIENT_ID \<and> b \<noteq> FASTUIDRAW_GLU_NULL_CLIENT_ID
      \<and> c \<noteq> FASTUIDRAW_GLU_NULL_CLIENT_ID
      \<and> a \<noteq> b \<and> a \<noteq> c \<and> b \<noteq> c
      \<and> (case (point_at h a, point_at h b, point_at h c) of
            (Some p0, Some p1, Some p2) \<Rightarrow>
               p0 \<noteq> p1 \<and> p0 \<noteq> p2 \<and> p1 \<noteq> p2 \<and> cross_product rnd p0 p1 p2 \<noteq> 0
          | _ \<Rightarrow> False))"

definition triangle_accepted_as_stated ::
  "(real \<Rightarrow> real) \<Rightarrow> PointHoard \<Rightarrow> nat \<Rightarrow> nat \<Rightarrow> nat \<Rightarrow> bool" where
  "triangle_accepted_as_stated rnd h a b c =
     (a \<noteq> FASTUIDRAW_GLU_NULL_CLIENT_ID \<and> b \<noteq> FASTUIDRAW_GLU_NULL_CLIENT_ID
      \<and> c \<noteq> FASTUIDRAW_GLU_NULL_CLIENT_ID
      \<and> a \<noteq> b \<and> a \<noteq> c \<and> b \<noteq> c
      \<and> (case (point_at h a, point_at h b, point_at h c) of
            (Some p0, Some p1, Some p2) \<Rightarrow>
               p0 \<noteq> p1 \<and> p0 \<noteq> p2 \<and> p1 \<noteq> p2 \<and> 0 < cross_product rnd p0 p1 p2
          | _ \<Rightarrow> False))"

definition valid_vertex :: "PointHoard \<Rightarrow> nat \<Rightarrow> bool" where
  "valid_vertex h v = (v = FASTUIDRAW_GLU_NULL_CLIENT_ID \<or> v < length (m_pts h))"

definition third_vertex_stored :: "nat \<Rightarrow> nat \<Rightarrow> nat \<Rightarrow> 'a tesser_scheme \<Rightarrow> 'a tesser_scheme" where
  "third_vertex_stored a b c p =
     p\<lparr>m_temp_verts := (a, b, c), m_temp_vert_count := 0,
       m_triangulation_failed := (m_triangulation_failed p \<or> c = FASTUIDRAW_GLU_NULL_CLIENT_ID)\<rparr>"

subsection \<open>Example inputs\<close>

text \<open>
  A point on the two cuts named by its boundary tags, with its corner code; a triangle as
  a root \<open>SubPath\<close>; arithmetic without rounding, for inputs whose intermediate results
  are small integers and dyadic fractions, which single precision represents exactly.
\<close>

definition corner_pt :: "on_boundary_t \<Rightarrow> on_boundary_t \<Rightarrow> nat \<Rightarrow> SubContourPoint" where
  "corner_pt tx ty c =
     \<lparr>m_pt = (0, 0), m_start_tessellated_edge = True, m_boundary_type = (tx, ty),
      m_corner_point_type = c\<rparr>"

definition exact :: "real \<Rightarrow> real" where
  "exact x = x"

definition triangle_path :: SubPath where
  "triangle_path =
     new_SubPath \<lparr>min_point = (0, 0), max_point = (4, 4)\<rparr>
       [[new_SubContourPoint (0, 0) True, new_SubContourPoint (4, 0) True,
         new_SubContourPoint (0, 4) True]] 0"

definition one_triangle_builder :: builder where
  "one_triangle_builder P =
     ([\<lparr>m_pt_fill = (0, 0), m_winding = [1]\<rparr>, \<lparr>m_pt_fill = (4, 0), m_winding = [1]\<rparr>,
       \<lparr>m_pt_fill = (0, 4), m_winding = [1]\<rparr>],
      [(1, \<lparr>m_indices = [0, 1, 2], m_count = 3, m_winding_number = 1\<rparr>)], False)"


definition triangle_leaf :: SubsetPrivate where
  "triangle_leaf = Childless (new_SubsetFields triangle_path [])"

definition example_writer :: DataWriterPrivate where
  "example_writer =
     \<lparr>m_subset_selector = [0],
      m_attribute_chunks =
        [\<lparr>m_attribs = map generate_attribute
                    [\<lparr>m_pt_fill = (0, 0), m_winding = [1]\<rparr>,
                     \<lparr>m_pt_fill = (4, 0), m_winding = [0, 1]\<rparr>],
          m_per_pt_winding_set =
            map (extract_from_set \<lparr>m_bits = [], m_begin = 0, m_end = 0\<rparr>) [[1], [0, 1]]\<rparr>],
      m_index_chunks = [],
      m_complement_winding_rule = \<lparr>m_bits = [True, False], m_begin = 0, m_end = 2\<rparr>,
      m_winding_rule = \<lparr>m_bits = [False, True], m_begin = 0, m_end = 2\<rparr>\<rparr>"

definition blank_attribute :: PainterAttribute where
  "blank_attribute =
     \<lparr>m_attrib0 = (uint_value 0, uint_value 0, uint_value 0, uint_value 0),
      m_attrib1 = (uint_value 0, uint_value 0, uint_value 0, uint_value 0),
      m_attrib2 = (uint_value 0, uint_value 0, uint_value 0, uint_value 0)\<rparr>"

text \<open>
  A \<open>PointHoard\<close> of three points under the identity conversion, a \<open>non_zero_tesser\<close>
  before its first polygon, and its state after a polygon of winding number 1 has begun
  and the vertices 0 and 1 have arrived: the third vertex completes a triangle that is
  counter-clockwise, clockwise or flat.
\<close>

definition unit_converter :: CoordinateConverter where
  "unit_converter = \<lparr>m_delta_fudge = 1, m_scale = (1, 1), m_translate = (0, 0),
                      m_scale_f = (1, 1), m_translate_f = (0, 0)\<rparr>"

definition three_points :: "vec2 \<Rightarrow> vec2 \<Rightarrow> vec2 \<Rightarrow> PointHoard" where
  "three_points p0 p1 p2 =
     \<lparr>m_converter = unit_converter,
      m_map = [(iapply exact unit_converter p0, 0), (iapply exact unit_converter p1, 1),
               (iapply exact unit_converter p2, 2)],
      m_pts = [\<lparr>m_pt_fill = p0, m_winding = []\<rparr>, \<lparr>m_pt_fill = p1, m_winding = []\<rparr>,
               \<lparr>m_pt_fill = p2, m_winding = []\<rparr>]\<rparr>"

definition fresh_tesser :: "PointHoard \<Rightarrow> non_zero_tesser" where
  "fresh_tesser h =
     \<lparr>m_point_count = length (m_pts h), m_points = h, m_temp_verts = (0, 0, 0),
      m_temp_vert_count = 0, m_triangulation_failed = False, m_winding_start_nz = 0,
      m_hoard = [], m_current_winding = 0, m_current_indices = None\<rparr>"

definition two_vertices_in :: "PointHoard \<Rightarrow> non_zero_tesser" where
  "two_vertices_in h =
     the (Option.bind
            (vertex_callBack exact non_zero_add_vertex_to_polygon 0
               (begin_callBack non_zero_on_begin_polygon 1 (fresh_tesser h)))
            (vertex_callBack exact non_zero_add_vertex_to_polygon 1))"

definition counter_clockwise :: PointHoard where
  "counter_clockwise = three_points (0, 0) (6, 0) (0, 6)"

definition clockwise :: PointHoard where
  "clockwise = three_points (0, 0) (0, 6) (6, 0)"

definition collinear :: PointHoard where
  "collinear = three_points (0, 0) (3, 3) (6, 6)"

section \<open>Properties\<close>

subsection \<open>Fill rules\<close>

lemma smod_two: "(k::int) smod 2 = (if even k then 0 else if k < 0 then -1 else 1)"
proof -
  have "odd k \<Longrightarrow> \<bar>k\<bar> mod 2 = 1" by presburger
  moreover have "even k \<Longrightarrow> \<bar>k\<bar> mod 2 = 0" by presburger
  ultimately show ?thesis by (auto simp: signed_modulo_int_def sgn_if)
qed

lemma c_rem_two: "c_rem w 2 = (if even (sint w) then 0 else if sint w < 0 then -1 else 1)"
  by (simp add: c_rem_def smod_two)

lemma even_sint_minus: "even (sint (- w)) = even (sint (w::c_int))"
  by (simp add: sint_word_minus even_signed_take_bit_iff)

lemma t_abs_parity: "even (sint (t_abs w)) = even (sint w)"
  by (simp add: t_abs_def even_sint_minus)

lemma sint_minus_pos:
  assumes "sint (w::c_int) < 0" and "odd (sint w)"
  shows "0 < sint (- w)"
proof -
  have lo: "- (2 ^ 31) \<le> sint w" using sint_ge [of w] by simp
  have "sint w \<noteq> - (2 ^ 31)" using assms(2) by auto
  with lo have "- (2 ^ 31) < sint w" by linarith
  then have "signed_take_bit 31 (- sint w) = - sint w"
    using assms(1) by (intro signed_take_bit_int_eq_self) auto
  then show ?thesis using assms(1) by (simp add: sint_word_minus)
qed

lemma t_abs_odd_nonneg: "odd (sint (t_abs w)) \<Longrightarrow> \<not> sint (t_abs w) < 0"
  using sint_minus_pos [of w]
  by (auto simp: t_abs_def word_sless_alt even_sint_minus split: if_splits)

text \<open>
  Claim C10. For every 32-bit \<open>int\<close> winding number \<open>w\<close> the two complement predicates
  are the exact negations of their base predicates: the complement odd-even rule
  (\<open>w % 2 == 0\<close>) is the negation of the odd-even rule (\<open>t_abs(w) % 2 == 1\<close>), also at
  negative odd \<open>w\<close>, where \<open>w % 2\<close> is \<open>-1\<close>, and at the least \<open>int\<close>, whose absolute
  value wraps; and the complement non-zero rule is the negation of the non-zero rule.
\<close>

theorem fill_rule_complements:
  "fcn_complement_odd_even_fill_rule w = (\<not> fcn_odd_even_fill_rule w)
   \<and> fcn_complelemt_non_zero_fill_rule w = (\<not> fcn_non_zero_fill_rule w)"
  using t_abs_odd_nonneg [of w]
  by (auto simp: fcn_complement_odd_even_fill_rule_def fcn_odd_even_fill_rule_def
      fcn_complelemt_non_zero_fill_rule_def fcn_non_zero_fill_rule_def c_rem_two t_abs_parity)

subsection \<open>Chunk identifiers\<close>

lemma std_abs_of_int: "std_abs w = word_of_int \<bar>sint w\<bar>"
  by (simp add: std_abs_def word_sless_alt abs_if)

lemma chunk_as_int:
  "w \<noteq> 0 \<Longrightarrow> chunk_from_winding_number w = word_of_int (chunk_formula (sint w))"
  by (simp add: chunk_from_winding_number_def chunk_formula_def Let_def std_abs_of_int
      fill_rule_data_count_def word_sless_alt)

lemma sint_nonzero: "w \<noteq> 0 \<Longrightarrow> sint (w::c_int) \<noteq> 0"
proof
  assume "w \<noteq> 0" and z: "sint w = 0"
  have "w = word_of_int (sint w)" by simp
  with z have "w = 0" by simp
  with \<open>w \<noteq> 0\<close> show False by simp
qed

lemma chunk_uint:
  assumes "w \<noteq> 0" and "- 2147483646 \<le> sint w" and "sint w \<le> 2147483646"
  shows "uint (chunk_from_winding_number w) = chunk_formula (sint w)"
proof -
  have nz: "sint w \<noteq> 0" using assms(1) by (rule sint_nonzero)
  have "0 \<le> chunk_formula (sint w)" "chunk_formula (sint w) < 2 ^ 32"
    using assms(2,3) nz by (auto simp: chunk_formula_def)
  then show ?thesis
    using assms(1) by (simp add: chunk_as_int uint_word_of_int take_bit_int_eq_self)
qed

lemma chunk_formula_inj:
  "a \<noteq> 0 \<Longrightarrow> b \<noteq> 0 \<Longrightarrow> chunk_formula a = chunk_formula b \<Longrightarrow> a = b"
  unfolding chunk_formula_def by (auto split: if_splits) presburger+

lemma chunk_formula_ge: "a \<noteq> 0 \<Longrightarrow> 4 \<le> chunk_formula a"
  by (auto simp: chunk_formula_def)

lemma no_int_overflow_iff: "no_int_overflow w = (\<bar>sint w\<bar> \<le> 1073741822)"
  by (auto simp add: no_int_overflow_def int_value_def Let_def)

text \<open>
  Claim C6, as stated, at the greatest \<open>int\<close>: the claimed chunk \<open>4 + 2 (|w| - 1)\<close> is
  \<open>2 ^ 32\<close>, which no \<open>unsigned int\<close> holds, whatever the function returns; the sum
  overflows \<open>int\<close>, and with the wrap-around of a two's-complement machine the function
  returns chunk 0, one of the four reserved chunks.
\<close>

theorem chunk_from_winding_number_counterexample:
  "chunk_from_winding_number 2147483647 = 0
   \<and> uint (chunk_from_winding_number 2147483647) \<noteq> chunk_formula (sint (2147483647 :: c_int))"
  by (simp add: chunk_from_winding_number_def std_abs_def fill_rule_data_count_def
      chunk_formula_def word_sless_alt)

text \<open>
  Claim C6, amended. For every winding number \<open>w \<noteq> 0\<close> with \<open>|w| \<le> 2 ^ 30 - 2\<close>, which
  are the winding numbers on which no \<open>int\<close> operation of the function overflows
  (\<open>no_int_overflow_iff\<close>), the chunk is \<open>4 + 2 (|w| - 1) + (1 if w < 0 else 0)\<close>; it is
  at least 4, so it is none of the reserved chunks 0..3; the chunk of 0 is 2, the
  complement-nonzero chunk; and the mapping is injective on the non-zero winding numbers
  of that range.
\<close>

theorem chunk_from_winding_number_in_range:
  assumes "w \<noteq> 0" and "- 1073741822 \<le> sint w" and "sint w \<le> 1073741822"
  shows "no_int_overflow w
       \<and> uint (chunk_from_winding_number w)
           = 4 + 2 * (\<bar>sint w\<bar> - 1) + (if sint w < 0 then 1 else 0)
       \<and> 4 \<le> uint (chunk_from_winding_number w)
       \<and> chunk_from_winding_number 0 = complement_nonzero_fill_rule
       \<and> complement_nonzero_fill_rule = 2
       \<and> (\<forall>w'. w' \<noteq> 0 \<and> - 1073741822 \<le> sint w' \<and> sint w' \<le> 1073741822
              \<and> chunk_from_winding_number w' = chunk_from_winding_number w \<longrightarrow> w' = w)"
proof -
  have r: "- 2147483646 \<le> sint w" "sint w \<le> 2147483646" using assms(2,3) by simp_all
  have u: "uint (chunk_from_winding_number w) = chunk_formula (sint w)"
    using assms(1) r by (rule chunk_uint)
  have nz: "sint w \<noteq> 0" using assms(1) by (rule sint_nonzero)
  have ov: "no_int_overflow w" using assms(2,3) by (simp add: no_int_overflow_iff)
  have inj: "w' = w" if h: "w' \<noteq> 0" "- 1073741822 \<le> sint w'" "sint w' \<le> 1073741822"
      "chunk_from_winding_number w' = chunk_from_winding_number w" for w'
  proof -
    have r': "- 2147483646 \<le> sint w'" "sint w' \<le> 2147483646" using h(2,3) by simp_all
    have "chunk_formula (sint w') = chunk_formula (sint w)"
      using chunk_uint [OF h(1) r'] u h(4) by simp
    then have "sint w' = sint w"
      using chunk_formula_inj sint_nonzero [OF h(1)] nz by blast
    then have "(word_of_int (sint w') :: c_int) = word_of_int (sint w)" by simp
    then show ?thesis by simp
  qed
  have a: "uint (chunk_from_winding_number w)
           = 4 + 2 * (\<bar>sint w\<bar> - 1) + (if sint w < 0 then 1 else 0)"
    using u by (simp add: chunk_formula_def)
  have b: "4 \<le> uint (chunk_from_winding_number w)"
    using u chunk_formula_ge [OF nz] by simp
  have c: "chunk_from_winding_number 0 = complement_nonzero_fill_rule"
    "complement_nonzero_fill_rule = 2"
    by (simp_all add: chunk_from_winding_number_def complement_nonzero_fill_rule_def)
  show ?thesis
    using ov a b c inj by blast
qed

theorem chunk_from_winding_number_in_range_witness:
  "(- 3 :: c_int) \<noteq> 0 \<and> - 1073741822 \<le> sint (- 3 :: c_int) \<and> sint (- 3 :: c_int) \<le> 1073741822
   \<and> no_int_overflow (- 3)
   \<and> uint (chunk_from_winding_number (- 3)) = 9
   \<and> 4 \<le> uint (chunk_from_winding_number (- 3))
   \<and> chunk_from_winding_number 0 = 2"
  using chunk_from_winding_number_in_range [of "- 3"]
  by (simp add: complement_nonzero_fill_rule_def)

subsection \<open>Degenerate contours\<close>

lemma box_next_neighbor_cycle: "v \<le> 3 \<Longrightarrow> box_next_neighbor v = Some (cycle_next v)"
proof -
  assume "v \<le> 3"
  then have "v = 0 \<or> v = 1 \<or> v = 2 \<or> v = 3" by auto
  then show ?thesis
    by (auto simp: box_next_neighbor_def cycle_next_def box_min_x_min_y_def box_min_x_max_y_def
        box_max_x_max_y_def box_max_x_min_y_def box_max_x_flag_def box_max_y_flag_def)
qed

lemma cycle_next_le: "cycle_next v \<le> 3"
  by (auto simp: cycle_next_def box_min_x_min_y_def box_min_x_max_y_def
        box_max_x_max_y_def box_max_x_min_y_def box_max_x_flag_def box_max_y_flag_def)

lemma cycle_next_not_both: "a \<le> 3 \<Longrightarrow> b \<le> 3 \<Longrightarrow> b = cycle_next a \<Longrightarrow> a \<noteq> cycle_next b"
proof -
  assume "a \<le> 3" "b \<le> 3" "b = cycle_next a"
  moreover from \<open>a \<le> 3\<close> have "a = 0 \<or> a = 1 \<or> a = 2 \<or> a = 3" by auto
  ultimately show ?thesis
    by (auto simp: cycle_next_def box_min_x_min_y_def box_min_x_max_y_def
        box_max_x_max_y_def box_max_x_min_y_def box_max_x_flag_def box_max_y_flag_def)
qed

lemma steps_from_Cons:
  "steps_from prev (p # ps) = (prev, m_corner_point_type p) # steps_from (m_corner_point_type p) ps"
  by (cases ps) (auto simp: steps_from_def)

lemma walk_corners_step:
  assumes "is_corner_point p" and "m_corner_point_type p \<le> 3" and "prev \<le> 3"
  shows "walk_corners (p # ps) prev f b =
           (if forward_step (prev, m_corner_point_type p)
            then walk_corners ps (m_corner_point_type p) (f + 1) b
            else if backward_step (prev, m_corner_point_type p)
            then walk_corners ps (m_corner_point_type p) f (b + 1)
            else NotAlongBoundary)"
  using assms
  by (simp add: corner_point_type_def box_next_neighbor_cycle forward_step_def backward_step_def)

lemma forward_not_backward:
  "a \<le> 3 \<Longrightarrow> b \<le> 3 \<Longrightarrow> forward_step (a, b) \<Longrightarrow> \<not> backward_step (a, b)"
  using cycle_next_not_both [of a b] by (simp add: forward_step_def backward_step_def)

lemma walk_corners_spec:
  assumes "list_all point_ok C" and "prev \<le> 3"
  shows "walk_corners C prev f b =
           (if list_all is_corner_point C
               \<and> list_all (\<lambda>s. forward_step s \<or> backward_step s) (steps_from prev C)
            then Walked (f + int (length (filter forward_step (steps_from prev C))))
                        (b + int (length (filter backward_step (steps_from prev C))))
            else NotAlongBoundary)"
  using assms
proof (induction C arbitrary: prev f b)
  case Nil
  then show ?case by (simp add: steps_from_def)
next
  case (Cons p ps)
  show ?case
  proof (cases "is_corner_point p")
    case False
    then show ?thesis by simp
  next
    case True
    with Cons.prems have le: "m_corner_point_type p \<le> 3" by (simp add: point_ok_def)
    have ok: "list_all point_ok ps" using Cons.prems by simp
    note IH = Cons.IH [OF ok le]
    note step = walk_corners_step [OF True le Cons.prems(2)]
    note excl = forward_not_backward [OF Cons.prems(2) le]
    show ?thesis
    proof (cases "forward_step (prev, m_corner_point_type p)")
      case fw: True
      then show ?thesis using True excl by (simp add: step IH steps_from_Cons del: walk_corners.simps)
    next
      case nfw: False
      then show ?thesis using True by (simp add: step IH steps_from_Cons del: walk_corners.simps)
    qed
  qed
qed

lemma cyclic_steps_from: "C \<noteq> [] \<Longrightarrow> cyclic_steps C = steps_from (m_corner_point_type (last C)) C"
  by (simp add: cyclic_steps_def steps_from_def)

lemma post_process_sub_contour_eq:
  assumes "list_all point_ok C"
  shows "post_process_sub_contour C =
           Some (if degenerate_boundary C then ((backwards C - forwards C) sdiv 4, [])
                 else (0, C))"
proof (cases "C = [] \<or> \<not> is_corner_point (last C)")
  case True
  then have "\<not> degenerate_boundary C"
    by (auto simp: degenerate_boundary_def list_all_iff)
  with True show ?thesis by (auto simp: post_process_sub_contour_def)
next
  case False
  then have ne: "C \<noteq> []" and cl: "is_corner_point (last C)" by auto
  from ne assms have "point_ok (last C)" by (simp add: list_all_iff)
  with cl have le: "m_corner_point_type (last C) \<le> 3" by (simp add: point_ok_def)
  have ct: "corner_point_type (last C) = Some (m_corner_point_type (last C))"
    using cl le by (simp add: corner_point_type_def)
  show ?thesis
    using ne cl ct
    by (auto simp: post_process_sub_contour_def walk_corners_spec [OF assms le]
        cyclic_steps_from [OF ne, symmetric] degenerate_boundary_def forwards_def backwards_def
        Let_def)
qed

text \<open>
  Claim C2. For a contour whose points were made by the constructors,
  \<open>post_process_sub_contour\<close> empties the contour and returns
  \<open>(backwards - forwards) / 4\<close> exactly when the contour is not empty, every point of it is
  a corner point, every step (the one from the last point to the first included) goes to
  the next or the previous corner of the 4-cycle, and \<open>(backwards - forwards) mod 4 = 0\<close>;
  in every other case it returns 0 and leaves the contour as it was. No assertion fails.
\<close>

theorem post_process_sub_contour_degenerate:
  assumes "list_all point_ok C"
  shows "post_process_sub_contour C =
           Some (if degenerate_boundary C then ((backwards C - forwards C) sdiv 4, [])
                 else (0, C))"
  using assms by (rule post_process_sub_contour_eq)

theorem post_process_sub_contour_degenerate_witness:
  "list_all point_ok
     [corner_pt on_min_boundary on_max_boundary 2, corner_pt on_max_boundary on_max_boundary 3,
      corner_pt on_max_boundary on_min_boundary 1, corner_pt on_min_boundary on_min_boundary 0]
   \<and> post_process_sub_contour
     [corner_pt on_min_boundary on_max_boundary 2, corner_pt on_max_boundary on_max_boundary 3,
      corner_pt on_max_boundary on_min_boundary 1, corner_pt on_min_boundary on_min_boundary 0]
     = Some (- 1, [])"
proof -
  let ?C = "[corner_pt on_min_boundary on_max_boundary 2,
             corner_pt on_max_boundary on_max_boundary 3,
             corner_pt on_max_boundary on_min_boundary 1,
             corner_pt on_min_boundary on_min_boundary 0]"
  have ok: "list_all point_ok ?C"
    by (simp add: point_ok_def is_corner_point_def boundary_type_def corner_pt_def)
  have deg: "degenerate_boundary ?C"
    by (simp add: degenerate_boundary_def is_corner_point_def boundary_type_def
        cyclic_steps_def forward_step_def backward_step_def forwards_def backwards_def
        cycle_next_def box_min_x_min_y_def box_min_x_max_y_def box_max_x_max_y_def
        box_max_x_min_y_def box_max_x_flag_def box_max_y_flag_def signed_modulo_int_def
        corner_pt_def)
  have cnt: "backwards ?C - forwards ?C = - 4"
    by (simp add: cyclic_steps_def forward_step_def backward_step_def forwards_def backwards_def
        cycle_next_def box_min_x_min_y_def box_min_x_max_y_def box_max_x_max_y_def
        box_max_x_min_y_def box_max_x_flag_def box_max_y_flag_def corner_pt_def)
  show ?thesis
    using post_process_sub_contour_degenerate [OF ok] ok deg cnt
    by (simp add: signed_divide_int_def)
qed

subsection \<open>Splitting keeps a SubPath well formed\<close>

lemma point_ok_new: "point_ok (new_SubContourPoint p s)"
  by (simp add: point_ok_def new_SubContourPoint_def is_corner_point_def boundary_type_def)

lemma point_ok_split: "point_ok (split_SubContourPoint a b pt sc tp)"
  by (auto simp: point_ok_def split_SubContourPoint_def Let_def is_corner_point_def boundary_type_def
      box_max_x_flag_def box_max_y_flag_def)

lemma split_contour_loop_ok:
  "list_all point_ok src \<Longrightarrow> list_all point_ok (fst Cs) \<Longrightarrow> list_all point_ok (snd Cs)
   \<Longrightarrow> list_all point_ok (fst (split_contour_loop rnd sc sv prev src Cs))
     \<and> list_all point_ok (snd (split_contour_loop rnd sc sv prev src Cs))"
proof (induction src arbitrary: prev Cs)
  case Nil
  then show ?case by simp
next
  case (Cons pt rest)
  show ?case
    unfolding split_contour_loop.simps Let_def
    by (rule Cons.IH) (use Cons.prems in \<open>auto simp: point_ok_split\<close>)
qed

lemma post_process_cases:
  assumes "list_all point_ok C"
  shows "\<exists>w C'. post_process_sub_contour C = Some (w, C') \<and> (C' = [] \<or> C' = C)"
  using post_process_sub_contour_eq [OF assms] by auto

lemma split_contour_ok:
  assumes "src \<noteq> []" and "list_all point_ok src"
  shows "\<exists>c0 c1 w0 w1. split_contour rnd src sc sv ([], [], ws0, ws1) = Some (c0, c1, w0, w1)
           \<and> list_all point_ok c0 \<and> list_all point_ok c1"
proof -
  let ?Cs = "split_contour_loop rnd sc sv (last src) src ([], [])"
  have ok: "list_all point_ok (fst ?Cs)" "list_all point_ok (snd ?Cs)"
    using split_contour_loop_ok [OF assms(2), of "([], [])"] by auto
  from post_process_cases [OF ok(1)] obtain w0 C0' where
    p0: "post_process_sub_contour (fst ?Cs) = Some (w0, C0')" "C0' = [] \<or> C0' = fst ?Cs" by blast
  from post_process_cases [OF ok(2)] obtain w1 C1' where
    p1: "post_process_sub_contour (snd ?Cs) = Some (w1, C1')" "C1' = [] \<or> C1' = snd ?Cs" by blast
  have "list_all point_ok C0'" "list_all point_ok C1'" using p0(2) p1(2) ok by auto
  then show ?thesis using assms(1) p0(1) p1(1) by (simp add: split_contour_def Let_def)
qed

lemma split_contours_ok:
  assumes "list_all (\<lambda>c. c \<noteq> [] \<and> list_all point_ok c) cs"
    and "list_all (\<lambda>c. c \<noteq> [] \<and> list_all point_ok c) C0"
    and "list_all (\<lambda>c. c \<noteq> [] \<and> list_all point_ok c) C1"
  shows "\<exists>D0 D1 w0 w1. split_contours rnd sc sv cs (C0, C1, ws0, ws1) = Some (D0, D1, w0, w1)
           \<and> list_all (\<lambda>c. c \<noteq> [] \<and> list_all point_ok c) D0
           \<and> list_all (\<lambda>c. c \<noteq> [] \<and> list_all point_ok c) D1"
  using assms
proof (induction cs arbitrary: C0 C1 ws0 ws1)
  case Nil
  then show ?case by simp
next
  case (Cons c cs)
  then have c: "c \<noteq> []" "list_all point_ok c" by auto
  from split_contour_ok [OF c, of rnd sc sv ws0 ws1] obtain c0 c1 w0 w1 where
    s: "split_contour rnd c sc sv ([], [], ws0, ws1) = Some (c0, c1, w0, w1)"
    and ok: "list_all point_ok c0" "list_all point_ok c1" by blast
  have "\<exists>D0 D1 w0' w1'. split_contours rnd sc sv cs
           (if c0 = [] then C0 else C0 @ [c0], if c1 = [] then C1 else C1 @ [c1], w0, w1)
             = Some (D0, D1, w0', w1')
           \<and> list_all (\<lambda>c. c \<noteq> [] \<and> list_all point_ok c) D0
           \<and> list_all (\<lambda>c. c \<noteq> [] \<and> list_all point_ok c) D1"
    by (rule Cons.IH) (use Cons.prems ok in auto)
  then show ?case using s by simp
qed

lemma count_contours_ok:
  "list_all (\<lambda>c. c \<noteq> [] \<and> list_all point_ok c) cs \<Longrightarrow> \<exists>r. count_contours mid cs st = Some r"
  by (induction cs arbitrary: st) auto

lemma choose_splitting_coordinate_ok:
  "wf_SubPath P \<Longrightarrow> \<exists>sc. choose_splitting_coordinate rnd P mid = Some sc"
  using count_contours_ok [of "m_contours P" mid "((0, 0), (0, 0))"]
  by (auto simp: choose_splitting_coordinate_def wf_SubPath_def Let_def split: prod.splits)

lemma split_ok:
  assumes "wf_SubPath P"
  shows "\<exists>C0 C1. split rnd P = Some (C0, C1) \<and> wf_SubPath C0 \<and> wf_SubPath C1"
proof -
  let ?mid = "scalar_mul rnd (1 / 2) (vec_add rnd (max_point (m_bounds P)) (min_point (m_bounds P)))"
  from choose_splitting_coordinate_ok [OF assms] obtain sc where
    sc: "choose_splitting_coordinate rnd P ?mid = Some sc" by blast
  from assms have cs: "list_all (\<lambda>c. c \<noteq> [] \<and> list_all point_ok c) (m_contours P)"
    by (simp add: wf_SubPath_def)
  from split_contours_ok [OF cs, of "[]" "[]" rnd sc "coord ?mid sc" 0 0] obtain D0 D1 w0 w1 where
    d: "split_contours rnd sc (coord ?mid sc) (m_contours P) ([], [], 0, 0) = Some (D0, D1, w0, w1)"
    and ok: "list_all (\<lambda>c. c \<noteq> [] \<and> list_all point_ok c) D0"
            "list_all (\<lambda>c. c \<noteq> [] \<and> list_all point_ok c) D1" by auto
  show ?thesis
    using sc d ok by (simp add: split_def Let_def wf_SubPath_def new_SubPath_def)
qed

subsection \<open>The subset tree\<close>

lemma new_SubsetPrivate_spec:
  "wf_SubPath Q \<Longrightarrow>
   \<exists>t out. new_SubsetPrivate rnd Q d out_values = Some (t, out) \<and> split_as_stated rnd Q d t"
proof (induction rnd Q d out_values rule: new_SubsetPrivate.induct)
  case (1 rnd Q max_recursion out_values)
  let ?this = "new_SubsetFields Q out_values"
  let ?out1 = "out_values @ [m_ID ?this]"
  from split_ok [OF "1.prems"] obtain C0 C1 where
    sp: "split rnd Q = Some (C0, C1)" and wf: "wf_SubPath C0" "wf_SubPath C1" by blast
  show ?case
  proof (cases "max_recursion > 0 \<and> m_total_points Q > points_per_subset")
    case False
    then show ?thesis
      by (subst new_SubsetPrivate.simps)
         (auto simp: Let_def new_SubsetFields_def points_per_subset_def)
  next
    case True
    show ?thesis
    proof (cases "m_total_points C0 < m_total_points Q \<or> m_total_points C1 < m_total_points Q")
      case False
      with True sp show ?thesis
        by (subst new_SubsetPrivate.simps)
           (auto simp: Let_def new_SubsetFields_def points_per_subset_def)
    next
      case smaller: True
      from "1.IH"(1) [OF refl refl True sp refl smaller wf(1)]
      obtain t0 out2 where
        c0: "new_SubsetPrivate rnd C0 (max_recursion - 1) ?out1 = Some (t0, out2)"
        and s0: "split_as_stated rnd C0 (max_recursion - 1) t0" by blast
      from "1.IH"(2) [OF refl refl True sp refl smaller c0 refl wf(2)]
      obtain t1 out3 where
        c1: "new_SubsetPrivate rnd C1 (max_recursion - 1) out2 = Some (t1, out3)"
        and s1: "split_as_stated rnd C1 (max_recursion - 1) t1" by blast
      show ?thesis
        using True sp smaller c0 c1 s0 s1
        by (subst new_SubsetPrivate.simps)
           (auto simp: Let_def points_per_subset_def)
    qed
  qed
qed

text \<open>
  Claim C9. The construction of the subset tree from a well-formed root \<open>SubPath\<close>
  terminates (\<open>new_SubsetPrivate\<close> is a total function, by the measure \<open>max_recursion\<close>)
  and returns a tree, and the tree is split exactly as stated: a node has children only
  if it was made from more than 64 points with recursion depth left (12 at the root) and
  one child of its split has strictly fewer points; a leaf was made from at most 64
  points, or with no depth left, or the two children of its split each have no fewer
  points than it.
\<close>

theorem subset_tree_construction:
  assumes "wf_SubPath q"
  shows "\<exists>root subsets. new_FilledPathPrivate rnd q = Some (root, subsets)
           \<and> split_as_stated rnd q 12 root"
  using new_SubsetPrivate_spec [OF assms, of rnd recursion_depth "[]"]
  by (simp add: new_FilledPathPrivate_def recursion_depth_def)

theorem subset_tree_construction_witness:
  "wf_SubPath triangle_path
   \<and> (\<exists>root subsets. new_FilledPathPrivate exact triangle_path = Some (root, subsets)
        \<and> split_as_stated exact triangle_path 12 root)"
proof -
  have wf: "wf_SubPath triangle_path"
    by (simp add: wf_SubPath_def triangle_path_def new_SubPath_def point_ok_new)
  show ?thesis
    using subset_tree_construction [OF wf, of exact] wf by simp
qed

subsection \<open>The layout of the index array\<close>

lemma is_even_iff: "is_even v = even v"
  by (simp add: is_even_def signed_modulo_int_def sgn_if) presburger

lemma std_copy_eq:
  "k + length xs \<le> length dest \<Longrightarrow>
   std_copy xs k dest = take k dest @ xs @ drop (k + length xs) dest"
proof (induction xs arbitrary: k dest)
  case Nil
  then show ?case by simp
next
  case (Cons x xs)
  have "std_copy (x # xs) k dest = std_copy xs (Suc k) (dest[k := x])" by simp
  also have "\<dots> = take (Suc k) (dest[k := x]) @ xs @ drop (Suc k + length xs) (dest[k := x])"
    using Cons.prems by (intro Cons.IH) simp
  also have "\<dots> = take k dest @ (x # xs) @ drop (k + length (x # xs)) dest"
    using Cons.prems by (simp add: take_Suc_conv_app_nth)
  finally show ?case .
qed

lemma indices_of_Cons:
  "indices_of sel ((w, d) # rest) = (if sel w then m_indices d @ indices_of sel rest else indices_of sel rest)"
  by (simp add: indices_of_def)

lemma count_indices_eq:
  "hoard_ok hoard \<Longrightarrow>
   count_indices hoard c =
     \<lparr>total = total c + length (indices_of odd_winding hoard)
                + length (indices_of even_non_zero_winding hoard) + length (indices_of zero_winding hoard),
      num_odd = num_odd c + length (indices_of odd_winding hoard),
      num_even_non_zero = num_even_non_zero c + length (indices_of even_non_zero_winding hoard),
      num_zero = num_zero c + length (indices_of zero_winding hoard)\<rparr>"
proof (induction hoard arbitrary: c)
  case Nil
  then show ?case by (simp add: indices_of_def)
next
  case (Cons e rest)
  obtain w d where e: "e = (w, d)" by (cases e)
  from Cons.prems have ok: "hoard_ok rest" and len: "m_count d = length (m_indices d)"
    by (auto simp: hoard_ok_def e)
  show ?case
    unfolding e
    by (simp add: Let_def Cons.IH [OF ok] indices_of_Cons count_def len is_even_iff
        odd_winding_def even_non_zero_winding_def zero_winding_def)
qed

lemma fill_at_eq:
  assumes "m_count d = length (m_indices d)" and "length P = k"
    and "length (m_indices d) \<le> length X"
  shows "fill_at d k (P @ X @ R) =
           Some (k + length (m_indices d), (P @ m_indices d) @ drop (length (m_indices d)) X @ R,
                 (k, length (m_indices d)))"
  using assms by (simp add: fill_at_def count_def std_copy_eq)

lemma pack_indices_eq:
  assumes "hoard_ok hoard"
    and "indices s = P0 @ X0 @ P1 @ X1 @ P2 @ X2"
    and "length P0 = current_odd s"
    and "length X0 = length (indices_of odd_winding hoard)"
    and "length (P0 @ X0 @ P1) = current_even_non_zero s"
    and "length X1 = length (indices_of even_non_zero_winding hoard)"
    and "length (P0 @ X0 @ P1 @ X1 @ P2) = current_zero s"
    and "length X2 = length (indices_of zero_winding hoard)"
  shows "\<exists>s'. pack_indices hoard s = Some s'
           \<and> current_odd s' = current_odd s + length (indices_of odd_winding hoard)
           \<and> current_even_non_zero s' = current_even_non_zero s + length (indices_of even_non_zero_winding hoard)
           \<and> current_zero s' = current_zero s + length (indices_of zero_winding hoard)
           \<and> indices s' = P0 @ indices_of odd_winding hoard @ P1
                           @ indices_of even_non_zero_winding hoard @ P2
                           @ indices_of zero_winding hoard"
  using assms
proof (induction hoard arbitrary: s P0 X0 P1 X1 P2 X2)
  case Nil
  then show ?case by (simp add: indices_of_def)
next
  case (Cons e rest)
  obtain w d where e: "e = (w, d)" by (cases e)
  from Cons.prems(1) have ok: "hoard_ok rest" and len: "m_count d = length (m_indices d)"
    by (auto simp: hoard_ok_def e)
  let ?n = "length (m_indices d)"
  consider (zero) "w = 0" | (even) "w \<noteq> 0" "even w" | (odd) "odd w" by auto
  then show ?case
  proof cases
    case odd
    then have w: "w \<noteq> 0" "\<not> is_even w" by (auto simp: is_even_iff)
    have sel: "odd_winding w" "\<not> even_non_zero_winding w" "\<not> zero_winding w"
      using odd by (auto simp: odd_winding_def even_non_zero_winding_def zero_winding_def)
    have le: "?n \<le> length X0" using Cons.prems(4) sel by (simp add: e indices_of_Cons)
    have fa: "fill_at d (current_odd s) (indices s) =
                Some (current_odd s + ?n, (P0 @ m_indices d) @ drop ?n X0 @ P1 @ X1 @ P2 @ X2,
                      (current_odd s, ?n))"
      unfolding Cons.prems(2) using fill_at_eq [OF len Cons.prems(3) le] by simp
    let ?s' = "s\<lparr>current_odd := current_odd s + ?n,
                 indices := (P0 @ m_indices d) @ drop ?n X0 @ P1 @ X1 @ P2 @ X2,
                 winding_map := map_store w (current_odd s, ?n) (winding_map s)\<rparr>"
    have "\<exists>s'. pack_indices rest ?s' = Some s'
           \<and> current_odd s' = current_odd ?s' + length (indices_of odd_winding rest)
           \<and> current_even_non_zero s' = current_even_non_zero ?s' + length (indices_of even_non_zero_winding rest)
           \<and> current_zero s' = current_zero ?s' + length (indices_of zero_winding rest)
           \<and> indices s' = (P0 @ m_indices d) @ indices_of odd_winding rest @ P1
                           @ indices_of even_non_zero_winding rest @ P2
                           @ indices_of zero_winding rest"
      by (rule Cons.IH [OF ok, where ?X0.0 = "drop ?n X0" and ?X1.0 = X1 and ?X2.0 = X2])
         (use Cons.prems sel le in \<open>auto simp: e indices_of_Cons\<close>)
    moreover have "\<exists>s'. pack_indices rest s = Some s'
           \<and> current_odd s' = current_odd s + length (indices_of odd_winding rest)
           \<and> current_even_non_zero s' = current_even_non_zero s + length (indices_of even_non_zero_winding rest)
           \<and> current_zero s' = current_zero s + length (indices_of zero_winding rest)
           \<and> indices s' = P0 @ indices_of odd_winding rest @ P1
                           @ indices_of even_non_zero_winding rest @ P2
                           @ indices_of zero_winding rest" if "?n = 0"
      by (rule Cons.IH [OF ok, where ?X0.0 = X0 and ?X1.0 = X1 and ?X2.0 = X2])
         (use Cons.prems sel le that in \<open>auto simp: e indices_of_Cons\<close>)
    ultimately show ?thesis
      using w sel fa len by (auto simp: e indices_of_Cons count_def)
  next
    case even
    then have w: "w \<noteq> 0" "is_even w" by (auto simp: is_even_iff)
    have sel: "\<not> odd_winding w" "even_non_zero_winding w" "\<not> zero_winding w"
      using even by (auto simp: odd_winding_def even_non_zero_winding_def zero_winding_def)
    have le: "?n \<le> length X1" using Cons.prems(6) sel by (simp add: e indices_of_Cons)
    have fa: "fill_at d (current_even_non_zero s) (indices s) =
                Some (current_even_non_zero s + ?n,
                      ((P0 @ X0 @ P1) @ m_indices d) @ drop ?n X1 @ P2 @ X2,
                      (current_even_non_zero s, ?n))"
      unfolding Cons.prems(2)
      using fill_at_eq [OF len Cons.prems(5) le, of "P2 @ X2"] by simp
    let ?s' = "s\<lparr>current_even_non_zero := current_even_non_zero s + ?n,
                 indices := ((P0 @ X0 @ P1) @ m_indices d) @ drop ?n X1 @ P2 @ X2,
                 winding_map := map_store w (current_even_non_zero s, ?n) (winding_map s)\<rparr>"
    have "\<exists>s'. pack_indices rest ?s' = Some s'
           \<and> current_odd s' = current_odd ?s' + length (indices_of odd_winding rest)
           \<and> current_even_non_zero s' = current_even_non_zero ?s' + length (indices_of even_non_zero_winding rest)
           \<and> current_zero s' = current_zero ?s' + length (indices_of zero_winding rest)
           \<and> indices s' = P0 @ indices_of odd_winding rest @ (P1 @ m_indices d)
                           @ indices_of even_non_zero_winding rest @ P2
                           @ indices_of zero_winding rest"
      by (rule Cons.IH [OF ok, where ?X0.0 = X0 and ?X1.0 = "drop ?n X1" and ?X2.0 = X2])
         (use Cons.prems sel le in \<open>auto simp: e indices_of_Cons\<close>)
    moreover have "\<exists>s'. pack_indices rest s = Some s'
           \<and> current_odd s' = current_odd s + length (indices_of odd_winding rest)
           \<and> current_even_non_zero s' = current_even_non_zero s + length (indices_of even_non_zero_winding rest)
           \<and> current_zero s' = current_zero s + length (indices_of zero_winding rest)
           \<and> indices s' = P0 @ indices_of odd_winding rest @ P1
                           @ indices_of even_non_zero_winding rest @ P2
                           @ indices_of zero_winding rest" if "?n = 0"
      by (rule Cons.IH [OF ok, where ?X0.0 = X0 and ?X1.0 = X1 and ?X2.0 = X2])
         (use Cons.prems sel le that in \<open>auto simp: e indices_of_Cons\<close>)
    ultimately show ?thesis
      using w sel fa len by (auto simp: e indices_of_Cons count_def)
  next
    case zero
    then have w: "w = 0" by simp
    have sel: "\<not> odd_winding w" "\<not> even_non_zero_winding w" "zero_winding w"
      using zero by (auto simp: odd_winding_def even_non_zero_winding_def zero_winding_def)
    have le: "?n \<le> length X2" using Cons.prems(8) sel by (simp add: e indices_of_Cons)
    have fa: "fill_at d (current_zero s) (indices s) =
                Some (current_zero s + ?n,
                      ((P0 @ X0 @ P1 @ X1 @ P2) @ m_indices d) @ drop ?n X2 @ [],
                      (current_zero s, ?n))"
      unfolding Cons.prems(2)
      using fill_at_eq [OF len Cons.prems(7) le, of "[]"] by simp
    let ?s' = "s\<lparr>current_zero := current_zero s + ?n,
                 indices := ((P0 @ X0 @ P1 @ X1 @ P2) @ m_indices d) @ drop ?n X2 @ [],
                 winding_map := map_store w (current_zero s, ?n) (winding_map s)\<rparr>"
    have "\<exists>s'. pack_indices rest ?s' = Some s'
           \<and> current_odd s' = current_odd ?s' + length (indices_of odd_winding rest)
           \<and> current_even_non_zero s' = current_even_non_zero ?s' + length (indices_of even_non_zero_winding rest)
           \<and> current_zero s' = current_zero ?s' + length (indices_of zero_winding rest)
           \<and> indices s' = P0 @ indices_of odd_winding rest @ P1
                           @ indices_of even_non_zero_winding rest @ (P2 @ m_indices d)
                           @ indices_of zero_winding rest"
      by (rule Cons.IH [OF ok, where ?X0.0 = X0 and ?X1.0 = X1 and ?X2.0 = "drop ?n X2"])
         (use Cons.prems sel le in \<open>auto simp: e indices_of_Cons\<close>)
    moreover have "\<exists>s'. pack_indices rest s = Some s'
           \<and> current_odd s' = current_odd s + length (indices_of odd_winding rest)
           \<and> current_even_non_zero s' = current_even_non_zero s + length (indices_of even_non_zero_winding rest)
           \<and> current_zero s' = current_zero s + length (indices_of zero_winding rest)
           \<and> indices s' = P0 @ indices_of odd_winding rest @ P1
                           @ indices_of even_non_zero_winding rest @ P2
                           @ indices_of zero_winding rest" if "?n = 0"
      by (rule Cons.IH [OF ok, where ?X0.0 = X0 and ?X1.0 = X1 and ?X2.0 = X2])
         (use Cons.prems sel le that in \<open>auto simp: e indices_of_Cons\<close>)
    ultimately show ?thesis
      using w sel fa len by (auto simp: e indices_of_Cons count_def)
  qed
qed

lemma length_std_resize: "length (std_resize xs n x) = n"
  by (simp add: std_resize_def)

lemma three_parts:
  assumes "length r = a + b + c"
  shows "r = take a r @ take b (drop a r) @ drop (a + b) r"
proof -
  have "drop b (drop a r) = drop (a + b) r" by (simp add: ac_simps)
  then have "drop a r = take b (drop a r) @ drop (a + b) r"
    using append_take_drop_id [of b "drop a r"] by simp
  moreover have "r = take a r @ drop a r" by simp
  ultimately show ?thesis by metis
qed

lemma fill_indices_eq:
  assumes "hoard_ok hoard"
  shows "\<exists>out wm even_non_zero_start zero_start.
           fill_indices hoard indices0 winding_map0 = Some (out, wm, even_non_zero_start, zero_start)
           \<and> out = indices_of odd_winding hoard @ indices_of even_non_zero_winding hoard
                     @ indices_of zero_winding hoard
           \<and> even_non_zero_start = length (indices_of odd_winding hoard)
           \<and> zero_start = length (indices_of odd_winding hoard)
                            + length (indices_of even_non_zero_winding hoard)
           \<and> sub_array out 0 zero_start
                = indices_of odd_winding hoard @ indices_of even_non_zero_winding hoard
           \<and> sub_array out 0 even_non_zero_start = indices_of odd_winding hoard
           \<and> sub_array_from out even_non_zero_start
                = indices_of even_non_zero_winding hoard @ indices_of zero_winding hoard
           \<and> sub_array_from out zero_start = indices_of zero_winding hoard"
proof -
  define Od where "Od = indices_of odd_winding hoard"
  define Ev where "Ev = indices_of even_non_zero_winding hoard"
  define Ze where "Ze = indices_of zero_winding hoard"
  define c where "c = count_indices hoard \<lparr>total = 0, num_odd = 0, num_even_non_zero = 0, num_zero = 0\<rparr>"
  have c: "total c = length Od + length Ev + length Ze" "num_odd c = length Od"
    "num_even_non_zero c = length Ev" "num_zero c = length Ze"
    by (simp_all add: c_def Od_def Ev_def Ze_def count_indices_eq [OF assms])
  define r where "r = std_resize indices0 (total c) 0"
  define s0 where "s0 = \<lparr>current_odd = 0, current_even_non_zero = num_odd c,
               current_zero = num_even_non_zero c + num_odd c,
               indices = r, winding_map = winding_map0\<rparr>"
  define X0 where "X0 = take (length Od) r"
  define X1 where "X1 = take (length Ev) (drop (length Od) r)"
  define X2 where "X2 = drop (length Od + length Ev) r"
  have lr: "length r = length Od + length Ev + length Ze"
    by (simp add: r_def length_std_resize c)
  have parts: "r = X0 @ X1 @ X2"
    unfolding X0_def X1_def X2_def by (rule three_parts [OF lr])
  have l0: "length X0 = length Od" using lr by (simp add: X0_def)
  have l1: "length X1 = length Ev" using lr by (simp add: X1_def)
  have l2: "length X2 = length Ze" using lr by (simp add: X2_def)
  have "\<exists>s'. pack_indices hoard s0 = Some s'
           \<and> current_odd s' = current_odd s0 + length (indices_of odd_winding hoard)
           \<and> current_even_non_zero s' = current_even_non_zero s0 + length (indices_of even_non_zero_winding hoard)
           \<and> current_zero s' = current_zero s0 + length (indices_of zero_winding hoard)
           \<and> indices s' = [] @ indices_of odd_winding hoard @ [] @ indices_of even_non_zero_winding hoard
                 @ [] @ indices_of zero_winding hoard"
  proof (rule pack_indices_eq [OF assms, where ?X0.0 = X0 and ?X1.0 = X1 and ?X2.0 = X2])
    show "indices s0 = [] @ X0 @ [] @ X1 @ [] @ X2" using parts by (simp add: s0_def)
    show "length [] = current_odd s0" by (simp add: s0_def)
    show "length X0 = length (indices_of odd_winding hoard)" using l0 by (simp add: Od_def)
    show "length ([] @ X0 @ []) = current_even_non_zero s0" using l0 c by (simp add: s0_def)
    show "length X1 = length (indices_of even_non_zero_winding hoard)" using l1 by (simp add: Ev_def)
    show "length ([] @ X0 @ [] @ X1 @ []) = current_zero s0" using l0 l1 c by (simp add: s0_def)
    show "length X2 = length (indices_of zero_winding hoard)" using l2 by (simp add: Ze_def)
  qed
  then obtain s' where s': "pack_indices hoard s0 = Some s'"
    "current_odd s' = length Od" "current_even_non_zero s' = length Od + length Ev"
    "current_zero s' = length Od + length Ev + length Ze" "indices s' = Od @ Ev @ Ze"
    using c by (auto simp: s0_def Od_def Ev_def Ze_def)
  have fi: "fill_indices hoard indices0 winding_map0
        = Some (Od @ Ev @ Ze, winding_map s', length Od, length Od + length Ev)"
    using s' c unfolding fill_indices_def Let_def c_def [symmetric] r_def [symmetric] s0_def [symmetric]
    by simp
  show ?thesis
    unfolding fi Od_def [symmetric] Ev_def [symmetric] Ze_def [symmetric]
    by (simp add: sub_array_def sub_array_from_def)
qed

text \<open>
  Claim C1. For every hoard of a leaf bake, \<open>fill_indices\<close> succeeds and lays the index
  array out as three contiguous regions: the indices of the triangles with odd winding
  number, then those with even non-zero winding number, then those with winding number
  zero; \<open>even_non_zero_start\<close> is the number of odd-winding indices and \<open>zero_start\<close> the
  number of odd plus even non-zero ones. So the slices \<open>make_ready_from_sub_path\<close> takes
  are: non-zero \<open>[0, zero_start)\<close>, odd-even \<open>[0, even_non_zero_start)\<close>, complement
  odd-even \<open>[even_non_zero_start, total)\<close>, complement non-zero \<open>[zero_start, total)\<close>.
\<close>

theorem fill_indices_layout:
  assumes "hoard_ok hoard"
  shows "\<exists>out wm even_non_zero_start zero_start.
           fill_indices hoard indices0 winding_map0 = Some (out, wm, even_non_zero_start, zero_start)
           \<and> out = indices_of odd_winding hoard @ indices_of even_non_zero_winding hoard
                     @ indices_of zero_winding hoard
           \<and> even_non_zero_start = length (indices_of odd_winding hoard)
           \<and> zero_start = length (indices_of odd_winding hoard)
                            + length (indices_of even_non_zero_winding hoard)
           \<and> sub_array out 0 zero_start
                = indices_of odd_winding hoard @ indices_of even_non_zero_winding hoard
           \<and> sub_array out 0 even_non_zero_start = indices_of odd_winding hoard
           \<and> sub_array_from out even_non_zero_start
                = indices_of even_non_zero_winding hoard @ indices_of zero_winding hoard
           \<and> sub_array_from out zero_start = indices_of zero_winding hoard"
  using assms by (rule fill_indices_eq)

theorem fill_indices_layout_witness:
  "hoard_ok
     [(- 1, \<lparr>m_indices = [0, 1, 2], m_count = 3, m_winding_number = - 1\<rparr>),
      (0, \<lparr>m_indices = [3, 4, 5], m_count = 3, m_winding_number = 0\<rparr>),
      (2, \<lparr>m_indices = [6, 7, 8], m_count = 3, m_winding_number = 2\<rparr>)]
   \<and> (\<exists>wm. fill_indices
     [(- 1, \<lparr>m_indices = [0, 1, 2], m_count = 3, m_winding_number = - 1\<rparr>),
      (0, \<lparr>m_indices = [3, 4, 5], m_count = 3, m_winding_number = 0\<rparr>),
      (2, \<lparr>m_indices = [6, 7, 8], m_count = 3, m_winding_number = 2\<rparr>)] [] []
     = Some ([0, 1, 2, 6, 7, 8, 3, 4, 5], wm, 3, 6))"
proof -
  let ?h = "[(- 1, \<lparr>m_indices = [0, 1, 2], m_count = 3, m_winding_number = - 1\<rparr>),
      (0, \<lparr>m_indices = [3, 4, 5], m_count = 3, m_winding_number = 0\<rparr>),
      (2, \<lparr>m_indices = [6, 7, 8 :: nat], m_count = 3, m_winding_number = 2\<rparr>)]"
  have ok: "hoard_ok ?h" by (simp add: hoard_ok_def)
  have "indices_of odd_winding ?h = [0, 1, 2]" "indices_of even_non_zero_winding ?h = [6, 7, 8]"
    "indices_of zero_winding ?h = [3, 4, 5]"
    by (simp_all add: indices_of_def odd_winding_def even_non_zero_winding_def zero_winding_def)
  then show ?thesis
    using fill_indices_layout [OF ok, of "[]" "[]"] ok by auto
qed

subsection \<open>The boundary flag\<close>

lemma common_bit_loop_eq:
  assumes "ws_ok a" "ws_ok b"
    and "\<forall>w \<in> set ws. m_begin a \<le> w \<and> w < m_end a \<and> m_begin b \<le> w \<and> w < m_end b"
  shows "common_bit_loop a b ws = Some (\<exists>w \<in> set ws. ws_has a w \<and> ws_has b w)"
  using assms(3)
proof (induction ws)
  case Nil
  then show ?case by simp
next
  case (Cons w ws)
  have ta: "test (m_bits a) (w - m_begin a) = Some (ws_has a w)"
    using assms(1) Cons.prems by (auto simp: test_def ws_ok_def ws_has_def)
  have tb: "test (m_bits b) (w - m_begin b) = Some (ws_has b w)"
    using assms(2) Cons.prems by (auto simp: test_def ws_ok_def ws_has_def)
  have IH: "common_bit_loop a b ws = Some (\<exists>w \<in> set ws. ws_has a w \<and> ws_has b w)"
    using Cons by simp
  show ?case by (cases "ws_has a w"; cases "ws_has b w") (simp_all add: ta tb IH)
qed

lemma have_common_bit_eq:
  assumes "ws_ok a" "ws_ok b"
  shows "have_common_bit a b = Some (\<exists>w. ws_has a w \<and> ws_has b w)"
proof -
  let ?ws = "[max (m_begin a) (m_begin b) .. min (m_end a) (m_end b) - 1]"
  have "common_bit_loop a b ?ws = Some (\<exists>w \<in> set ?ws. ws_has a w \<and> ws_has b w)"
    by (rule common_bit_loop_eq [OF assms]) auto
  moreover have "(\<exists>w \<in> set ?ws. ws_has a w \<and> ws_has b w) = (\<exists>w. ws_has a w \<and> ws_has b w)"
    by (auto simp: ws_has_def)
  ultimately show ?thesis by (simp add: have_common_bit_def)
qed

lemma length_fill_rule_bits [simp]:
  "length (fill_rule_bits fill_rule flip b bits ws) = length bits"
  unfolding fill_rule_bits_def by (induction ws arbitrary: bits) auto

lemma fill_rule_bits_nth:
  assumes "\<forall>v \<in> set ws. b \<le> v \<and> nat (v - b) < length bits" and "b \<le> w"
  shows "fill_rule_bits fill_rule flip b bits ws ! nat (w - b) =
           (if w \<in> set ws then fill_rule w \<noteq> flip else bits ! nat (w - b))"
  using assms(1)
proof (induction ws arbitrary: bits rule: rev_induct)
  case Nil
  then show ?case by (simp add: fill_rule_bits_def)
next
  case (snoc v ws)
  have eq: "fill_rule_bits fill_rule flip b bits (ws @ [v]) =
        (fill_rule_bits fill_rule flip b bits ws)[nat (v - b) := (fill_rule v \<noteq> flip)]"
    by (simp add: fill_rule_bits_def)
  have IH: "fill_rule_bits fill_rule flip b bits ws ! nat (w - b) =
           (if w \<in> set ws then fill_rule w \<noteq> flip else bits ! nat (w - b))"
    using snoc by simp
  have v: "b \<le> v" "nat (v - b) < length bits" using snoc.prems by auto
  have "nat (v - b) = nat (w - b) \<longleftrightarrow> v = w" using v(1) assms(2) by auto
  then show ?case using v by (auto simp: eq IH nth_list_update)
qed

lemma extract_from_fill_fule_ok:
  assumes "mn \<le> mx + 1"
  shows "\<exists>s. extract_from_fill_fule this mn mx fill_rule flip = Some s \<and> ws_ok s
           \<and> (\<forall>w. ws_has s w = (mn \<le> w \<and> w \<le> mx \<and> fill_rule w \<noteq> flip))"
proof -
  let ?bits0 = "std_resize (m_bits this) (nat (mx + 1 - mn)) False"
  let ?s = "\<lparr>m_bits = fill_rule_bits fill_rule flip mn ?bits0 [mn..mx + 1 - 1],
             m_begin = mn, m_end = mx + 1\<rparr>"
  have e: "extract_from_fill_fule this mn mx fill_rule flip = Some ?s"
    using assms by (simp add: extract_from_fill_fule_def Let_def)
  have len: "length ?bits0 = nat (mx + 1 - mn)" by (simp add: length_std_resize)
  have ok: "ws_ok ?s" using assms by (simp add: ws_ok_def len)
  have has: "ws_has ?s w = (mn \<le> w \<and> w \<le> mx \<and> fill_rule w \<noteq> flip)" for w
  proof (cases "mn \<le> w \<and> w \<le> mx")
    case True
    have "fill_rule_bits fill_rule flip mn ?bits0 [mn..mx + 1 - 1] ! nat (w - mn) =
           (if w \<in> set [mn..mx + 1 - 1] then fill_rule w \<noteq> flip else ?bits0 ! nat (w - mn))"
      by (rule fill_rule_bits_nth) (use True len in auto)
    then show ?thesis using True by (simp add: ws_has_def)
  next
    case False
    then show ?thesis by (auto simp: ws_has_def)
  qed
  show ?thesis using e ok has by blast
qed

lemma set_bits_nth:
  assumes "\<forall>v \<in> set vs. b \<le> v \<and> nat (v - b) < length bits" and "b \<le> w"
  shows "foldl (\<lambda>bs v. bs[nat (v - b) := True]) bits vs ! nat (w - b) =
           (w \<in> set vs \<or> bits ! nat (w - b))"
    and "length (foldl (\<lambda>bs v. bs[nat (v - b) := True]) bits vs) = length bits"
  using fill_rule_bits_nth [OF assms, of "\<lambda>_. True" False]
    length_fill_rule_bits [of "\<lambda>_. True" False b bits vs]
  by (auto simp: fill_rule_bits_def)

lemma sorted_hd_last:
  assumes "sorted xs" and "x \<in> set xs"
  shows "hd xs \<le> x" and "x \<le> last xs"
proof -
  from assms(2) have ne: "xs \<noteq> []" by auto
  show "hd xs \<le> x" using assms ne by (cases xs) auto
  have "xs = butlast xs @ [last xs]" using ne by simp
  then have "sorted (butlast xs @ [last xs])" "x \<in> set (butlast xs @ [last xs])"
    using assms by simp_all
  then show "x \<le> last xs" by (auto simp: sorted_append)
qed

lemma extract_from_set_ok:
  assumes "sorted xs"
  shows "ws_ok (extract_from_set this xs)"
    and "ws_has (extract_from_set this xs) w = (w \<in> set xs)"
proof -
  show "ws_ok (extract_from_set this xs)"
  proof (cases "xs = []")
    case True
    then show ?thesis by (simp add: extract_from_set_def ws_ok_def)
  next
    case False
    then have "hd xs \<le> last xs" using sorted_hd_last(1) [OF assms, of "last xs"] by simp
    have in_range: "\<forall>v \<in> set xs. hd xs \<le> v \<and> nat (v - hd xs)
          < length (std_resize ([]::bool list) (nat (last xs + 1 - hd xs)) False)"
    proof
      fix v assume "v \<in> set xs"
      then have "hd xs \<le> v" "v \<le> last xs" using sorted_hd_last [OF assms] by auto
      then show "hd xs \<le> v \<and> nat (v - hd xs)
          < length (std_resize ([]::bool list) (nat (last xs + 1 - hd xs)) False)"
        by (simp add: length_std_resize)
    qed
    show ?thesis
      using False \<open>hd xs \<le> last xs\<close> set_bits_nth(2) [OF in_range order_refl]
      by (simp add: extract_from_set_def ws_ok_def Let_def length_std_resize)
  qed
  show "ws_has (extract_from_set this xs) w = (w \<in> set xs)"
  proof (cases "xs = []")
    case True
    then show ?thesis by (simp add: extract_from_set_def ws_has_def)
  next
    case False
    have in_range: "\<forall>v \<in> set xs. hd xs \<le> v \<and> nat (v - hd xs)
          < length (std_resize ([]::bool list) (nat (last xs + 1 - hd xs)) False)"
    proof
      fix v assume "v \<in> set xs"
      then have "hd xs \<le> v" "v \<le> last xs" using sorted_hd_last [OF assms] by auto
      then show "hd xs \<le> v \<and> nat (v - hd xs)
          < length (std_resize ([]::bool list) (nat (last xs + 1 - hd xs)) False)"
        by (simp add: length_std_resize)
    qed
    show ?thesis
    proof (cases "hd xs \<le> w \<and> w < last xs + 1")
      case True
      then have "nat (w - hd xs) < nat (last xs + 1 - hd xs)" by auto
      then have "std_resize ([]::bool list) (nat (last xs + 1 - hd xs)) False ! nat (w - hd xs) = False"
        by (simp add: std_resize_def)
      then show ?thesis
        using False True set_bits_nth(1) [OF in_range, of w]
        by (simp add: extract_from_set_def ws_has_def Let_def)
    next
      case out: False
      then have "w \<notin> set xs" using sorted_hd_last [OF assms, of w] by auto
      then show ?thesis using False out by (auto simp: extract_from_set_def ws_has_def Let_def)
    qed
  qed
qed

lemma write_attributes_loop_eq:
  assumes "distinct idx" and "\<forall>i \<in> set idx. i < length dst \<and> i < length w_src"
    and "\<forall>i < length w_src. have_common_bit c (w_src ! i) = Some (B i)"
  shows "\<exists>dst'. write_attributes_loop c src w_src idx dst = Some dst'
           \<and> length dst' = length dst
           \<and> (\<forall>i < length dst. dst' ! i =
                 (if i \<in> set idx then written_attribute (src ! i) (dst ! i) (B i) else dst ! i))"
  using assms(1,2)
proof (induction idx arbitrary: dst)
  case Nil
  then show ?case by simp
next
  case (Cons i rest)
  let ?d1 = "dst[i := written_attribute (src ! i) (dst ! i) (B i)]"
  have i: "i < length dst" "i < length w_src" "i \<notin> set rest" using Cons.prems by auto
  have w: "write_attribute c src w_src i dst = Some ?d1"
    using i assms(3) by (simp add: write_attribute_def written_attribute_def pack_float_def)
  have "\<exists>dst'. write_attributes_loop c src w_src rest ?d1 = Some dst'
           \<and> length dst' = length ?d1
           \<and> (\<forall>j < length ?d1. dst' ! j =
                 (if j \<in> set rest then written_attribute (src ! j) (?d1 ! j) (B j) else ?d1 ! j))"
    by (rule Cons.IH) (use Cons.prems in auto)
  then obtain dst' where d: "write_attributes_loop c src w_src rest ?d1 = Some dst'"
    "length dst' = length dst"
    "\<forall>j < length dst. dst' ! j =
        (if j \<in> set rest then written_attribute (src ! j) (?d1 ! j) (B j) else ?d1 ! j)"
    by auto
  have "\<forall>j < length dst. dst' ! j =
      (if j \<in> set (i # rest) then written_attribute (src ! j) (dst ! j) (B j) else dst ! j)"
    using d(3) i by (auto simp: nth_list_update)
  then show ?case using w d by simp
qed

lemma write_attributes_eq:
  assumes "attribute_chunk < length (m_attribute_chunks d)"
    and "length dst = length (m_attribs (m_attribute_chunks d ! attribute_chunk))"
    and "m_per_pt_winding_set (m_attribute_chunks d ! attribute_chunk)
           = map (extract_from_set t) windings"
    and "length windings = length dst"
    and "list_all sorted windings"
    and "extract_from_fill_fule t' min_winding max_winding fill_rule True
           = Some (m_complement_winding_rule d)"
  shows "\<exists>dst'. write_attributes d dst attribute_chunk = Some dst'
           \<and> length dst' = length dst
           \<and> (\<forall>i < length dst. dst' ! i =
                 written_attribute (m_attribs (m_attribute_chunks d ! attribute_chunk) ! i) (dst ! i)
                   (on_boundary fill_rule min_winding max_winding (windings ! i)))"
proof -
  let ?src = "m_attribs (m_attribute_chunks d ! attribute_chunk)"
  let ?w_src = "m_per_pt_winding_set (m_attribute_chunks d ! attribute_chunk)"
  let ?c = "m_complement_winding_rule d"
  have range: "min_winding \<le> max_winding + 1"
    using assms(6) by (auto simp: extract_from_fill_fule_def Let_def split: if_splits)
  from extract_from_fill_fule_ok [OF range, of t' fill_rule True] assms(6)
  have c: "ws_ok ?c" "\<And>w. ws_has ?c w = (min_winding \<le> w \<and> w \<le> max_winding \<and> \<not> fill_rule w)"
    by auto
  have bit: "\<forall>i < length ?w_src. have_common_bit ?c (?w_src ! i)
               = Some (on_boundary fill_rule min_winding max_winding (windings ! i))"
  proof (intro allI impI)
    fix i assume "i < length ?w_src"
    then have i: "i < length windings" by (simp add: assms(3))
    then have s: "sorted (windings ! i)" using assms(5) by (simp add: list_all_length)
    have "have_common_bit ?c (extract_from_set t (windings ! i))
            = Some (\<exists>w. ws_has ?c w \<and> ws_has (extract_from_set t (windings ! i)) w)"
      by (rule have_common_bit_eq [OF c(1) extract_from_set_ok(1) [OF s]])
    then show "have_common_bit ?c (?w_src ! i)
               = Some (on_boundary fill_rule min_winding max_winding (windings ! i))"
      using i by (auto simp: assms(3) c(2) extract_from_set_ok(2) [OF s] on_boundary_def list_ex_iff)
  qed
  have "\<exists>dst'. write_attributes_loop ?c ?src ?w_src [0..<length dst] dst = Some dst'
           \<and> length dst' = length dst
           \<and> (\<forall>i < length dst. dst' ! i =
                 (if i \<in> set [0..<length dst]
                  then written_attribute (?src ! i) (dst ! i)
                         (on_boundary fill_rule min_winding max_winding (windings ! i))
                  else dst ! i))"
    by (rule write_attributes_loop_eq [OF _ _ bit]) (simp_all add: assms(3,4))
  then show ?thesis
    using assms(1,2) by (auto simp: write_attributes_def Let_def)
qed

text \<open>
  Claim C3. Under a fill rule whose complement winding set was taken over the observed
  winding range \<open>[min_winding, max_winding]\<close>, \<open>write_attributes\<close> succeeds and leaves, for
  every vertex \<open>i\<close>, the x and y of slot 0 copied from the source and the z of slot 0 set to
  0.0 if the winding set of the vertex has an element of that range which the fill rule
  does not select, and to 1.0 otherwise; every other component stays as it was.
\<close>

theorem write_attributes_boundary_flag:
  assumes "attribute_chunk < length (m_attribute_chunks d)"
    and "length dst = length (m_attribs (m_attribute_chunks d ! attribute_chunk))"
    and "m_per_pt_winding_set (m_attribute_chunks d ! attribute_chunk)
           = map (extract_from_set t) windings"
    and "length windings = length dst"
    and "list_all sorted windings"
    and "extract_from_fill_fule t' min_winding max_winding fill_rule True
           = Some (m_complement_winding_rule d)"
  shows "\<exists>dst'. write_attributes d dst attribute_chunk = Some dst'
           \<and> length dst' = length dst
           \<and> (\<forall>i < length dst. dst' ! i =
                 written_attribute (m_attribs (m_attribute_chunks d ! attribute_chunk) ! i) (dst ! i)
                   (on_boundary fill_rule min_winding max_winding (windings ! i)))"
  using assms by (rule write_attributes_eq)

theorem write_attributes_boundary_flag_witness:
  "map_option (map (\<lambda>a. attrib_z (m_attrib0 a)))
     (write_attributes example_writer [blank_attribute, blank_attribute] 0)
   = Some [float_value 1, float_value 0]"
proof -
  let ?t = "\<lparr>m_bits = [], m_begin = 0, m_end = 0\<rparr>"
  have c: "extract_from_fill_fule ?t 0 1 (\<lambda>w. w \<noteq> 0) True
             = Some (m_complement_winding_rule example_writer)"
    by code_simp
  have h: "0 < length (m_attribute_chunks example_writer)"
    "length [blank_attribute, blank_attribute]
       = length (m_attribs (m_attribute_chunks example_writer ! 0))"
    "m_per_pt_winding_set (m_attribute_chunks example_writer ! 0)
       = map (extract_from_set ?t) [[1], [0, 1]]"
    "length [[1], [0, 1 :: int]] = length [blank_attribute, blank_attribute]"
    "list_all sorted [[1], [0, 1 :: int]]"
    by (simp_all add: example_writer_def)
  from write_attributes_boundary_flag [OF h c]
  obtain dst' where d: "write_attributes example_writer [blank_attribute, blank_attribute] 0 = Some dst'"
    "length dst' = 2"
    "\<forall>i<2. dst' ! i =
       written_attribute (m_attribs (m_attribute_chunks example_writer ! 0) ! i)
         ([blank_attribute, blank_attribute] ! i)
         (on_boundary (\<lambda>w. w \<noteq> 0) 0 1 ([[1], [0, 1]] ! i))"
    by auto
  have z0: "attrib_z (m_attrib0 (dst' ! 0)) = float_value 1"
    using d(3) by (simp add: written_attribute_def on_boundary_def attrib_z_def)
  have z1: "attrib_z (m_attrib0 (dst' ! 1)) = float_value 0"
    using d(3) by (simp add: written_attribute_def on_boundary_def attrib_z_def)
  obtain a b where ab: "dst' = [a, b]"
    using d(2) by (cases dst'; cases "tl dst'") auto
  show ?thesis using z0 z1 by (simp add: d(1) ab)
qed

subsection \<open>Baking is memoised\<close>

lemma make_ready_has_data:
  "make_ready B t = Some t' \<Longrightarrow> m_painter_data (subset_fields t') \<noteq> None"
proof (cases t)
  case (Childless d)
  assume "make_ready B t = Some t'"
  then show ?thesis
    unfolding Childless
    by (auto simp: subset_fields_def make_ready_from_sub_path_def Let_def
        split: if_splits option.splits prod.splits)
next
  case (Parent d c0 c1)
  assume "make_ready B t = Some t'"
  then show ?thesis
    unfolding Parent
    by (auto simp: subset_fields_def Let_def split: if_splits option.splits prod.splits)
qed

lemma make_ready_idem:
  "m_painter_data (subset_fields t) \<noteq> None \<Longrightarrow> make_ready B t = Some t"
  by (cases t) (auto simp: subset_fields_def)

text \<open>
  Claim C8. \<open>make_ready\<close> is idempotent: once a call has completed on a node, a second
  call returns the node as it is, with the same painter data, winding numbers and
  per-vertex winding sets, whatever the tessellator would do: nothing is rebuilt.
\<close>

theorem make_ready_idempotent:
  assumes "make_ready B t = Some t'"
  shows "make_ready B' t' = Some t'"
  using make_ready_idem [OF make_ready_has_data [OF assms]] .

theorem make_ready_idempotent_witness:
  "make_ready one_triangle_builder triangle_leaf \<noteq> None
   \<and> make_ready one_triangle_builder (the (make_ready one_triangle_builder triangle_leaf))
       = make_ready one_triangle_builder triangle_leaf"
proof -
  have b: "make_ready one_triangle_builder triangle_leaf \<noteq> None" by code_simp
  then have b1: "make_ready one_triangle_builder triangle_leaf
                  = Some (the (make_ready one_triangle_builder triangle_leaf))" by simp
  show ?thesis
    using make_ready_idempotent [OF b1, of one_triangle_builder] b b1 by simp
qed

subsection \<open>Selection of a childless node\<close>






subsection \<open>Triangles of the tessellator\<close>

lemma vertex_callBack_third:
  assumes "m_temp_vert_count p = 2" and "m_temp_verts p = (a, b, x)"
    and "valid_vertex (m_points p) a" and "valid_vertex (m_points p) b"
    and "valid_vertex (m_points p) c"
  shows "vertex_callBack rnd add_vertex_to_polygon c p =
           (if triangle_accepted rnd (m_points p) a b c
            then add_six_triangles rnd add_vertex_to_polygon (third_vertex_stored a b c p)
            else Some (third_vertex_stored a b c p))"
proof -
  have eq: "(if c = FASTUIDRAW_GLU_NULL_CLIENT_ID then p\<lparr>m_triangulation_failed := True\<rparr> else p)
              \<lparr>m_temp_verts := (a, b, c), m_temp_vert_count := 3\<rparr>\<lparr>m_temp_vert_count := 0\<rparr>
            = third_vertex_stored a b c p"
    by (simp add: third_vertex_stored_def)
  have pa: "\<And>v. v \<noteq> FASTUIDRAW_GLU_NULL_CLIENT_ID \<Longrightarrow> valid_vertex (m_points p) v \<Longrightarrow>
              point_at (m_points p) v = Some (m_pt_fill (m_pts (m_points p) ! v))"
    by (simp add: valid_vertex_def point_at_def)
  have abs: "\<And>r::real. (0 < float_abs r) = (r \<noteq> 0)" by (auto simp add: float_abs_def)
  show ?thesis
    using assms pa [of a] pa [of b] pa [of c]
    by (auto simp add: vertex_callBack_def set_temp_vert_def Let_def third_vertex_stored_def
        temp_verts_non_degenerate_triangle_def triangle_accepted_def abs
        split: option.splits bool.splits)
qed





lemma map_of_map_store: "map_of (map_store k v m) = (map_of m)(k \<mapsto> v)"
  by (induction m) (auto simp add: fun_eq_iff)








lemma fetch_deduplicates_eq:
  "fetch rnd pt (snd (fetch rnd pt h)) = (fst (fetch rnd pt h), snd (fetch rnd pt h))"
  by (cases "map_of (m_map h) (iapply rnd (m_converter h) pt)")
     (simp_all add: fetch_def Let_def map_add_def)



lemma non_zero_on_begin_polygon_current:
  assumes "\<forall>kd \<in> set (m_hoard t). m_winding_number (snd kd) = fst kd"
    and "m_current_indices t \<noteq> None \<longrightarrow> m_current_indices t = Some (m_current_winding t)
           \<and> map_of (m_hoard t) (m_current_winding t) \<noteq> None"
  shows "\<exists>d. m_current_indices (begin_callBack non_zero_on_begin_polygon w t)
               = Some (w + m_winding_start_nz t)
           \<and> m_current_winding (begin_callBack non_zero_on_begin_polygon w t)
               = w + m_winding_start_nz t
           \<and> map_of (m_hoard (begin_callBack non_zero_on_begin_polygon w t))
                (w + m_winding_start_nz t) = Some d
           \<and> m_winding_number d = w + m_winding_start_nz t
           \<and> m_temp_vert_count (begin_callBack non_zero_on_begin_polygon w t) = 0"
proof -
  have key: "m_winding_number d = k" if "map_of (m_hoard t) k = Some d" for k d
  proof -
    have "(k, d) \<in> set (m_hoard t)" using that by (rule map_of_SomeD)
    with assms(1) show ?thesis by fastforce
  qed
  show ?thesis
    using assms(2) key
    by (auto simp add: begin_callBack_def non_zero_on_begin_polygon_def Let_def
        map_of_map_store new_per_winding_data_def split: option.splits)
qed

lemma two_vertices_in_eq:
  "two_vertices_in h =
     \<lparr>m_point_count = length (m_pts h), m_points = h, m_temp_verts = (0, 1, 0),
      m_temp_vert_count = 2, m_triangulation_failed = False, m_winding_start_nz = 0,
      m_hoard = [(1, new_per_winding_data 1)], m_current_winding = 1,
      m_current_indices = Some 1\<rparr>"
  by (simp add: two_vertices_in_def fresh_tesser_def begin_callBack_def
      non_zero_on_begin_polygon_def vertex_callBack_def set_temp_vert_def
      FASTUIDRAW_GLU_NULL_CLIENT_ID_def Let_def)

lemmas tesser_example_defs = three_points_def iapply_def unit_converter_def vec_sub_def vec_add_def
  scalar_mul_def scalar_div_def exact_def static_cast_int_def point_at_def
  FASTUIDRAW_GLU_NULL_CLIENT_ID_def cross_product_def fetch_def Let_def map_ok_def
  valid_vertex_def new_per_winding_data_def

text \<open>
  Claim C4, as stated, on a clockwise triangle: the vertices 0, 1, 2 at (0, 0), (0, 6),
  (6, 0) are not null, mutually distinct and at mutually distinct positions, and the
  signed area of the triangle is negative, so the stated condition rejects it; the
  callback emits it, 18 indices are recorded for the winding number of the polygon.
\<close>

theorem triangle_acceptance_counterexample:
  "(triangle_accepted_as_stated exact clockwise 0 1 2,
    map_option (\<lambda>p'. map_of (m_hoard p') 1)
      (vertex_callBack exact non_zero_add_vertex_to_polygon 2 (two_vertices_in clockwise)))
   = (False,
      Some (Some \<lparr>m_indices = [0, 3, 6, 0, 6, 4, 6, 1, 5, 3, 1, 6, 4, 6, 2, 6, 5, 2],
                  m_count = 18, m_winding_number = 1\<rparr>))"
  by (simp add: two_vertices_in_eq clockwise_def triangle_accepted_as_stated_def
      tesser_example_defs vertex_callBack_def set_temp_vert_def
      temp_verts_non_degenerate_triangle_def float_abs_def add_six_triangles_def
      add_triangle_def non_zero_add_vertex_to_polygon_def add_to_winding_set_def
      std_set_insert_def add_index_def winding_number_def)

text \<open>
  Claim C4, amended. When the third vertex \<open>c\<close> of a triangle arrives after \<open>a\<close> and \<open>b\<close>
  (each the null ID or the ID of a point), the triangle is emitted, by
  \<open>add_six_triangles\<close>, if and only if none of the three IDs is the null ID, the IDs are
  mutually distinct, the positions are mutually distinct and the cross product
  \<open>(p1 - p0) \<times> (p2 - p0)\<close>, computed in single precision, is not zero, whatever its sign.
  A rejected triangle leaves the points with their winding sets and the fields of the
  derived class, among them the hoard of indices, as they were: only the three stored
  vertices, the count and the failure flag of the \<open>tesser\<close> change.
\<close>

theorem triangle_acceptance:
  assumes "m_temp_vert_count p = 2" and "m_temp_verts p = (a, b, x)"
    and "valid_vertex (m_points p) a" and "valid_vertex (m_points p) b"
    and "valid_vertex (m_points p) c"
  shows "(triangle_accepted rnd (m_points p) a b c \<longrightarrow>
            vertex_callBack rnd add_vertex_to_polygon c p
              = add_six_triangles rnd add_vertex_to_polygon (third_vertex_stored a b c p))
         \<and> (\<not> triangle_accepted rnd (m_points p) a b c \<longrightarrow>
              (\<exists>p'. vertex_callBack rnd add_vertex_to_polygon c p = Some p'
                 \<and> m_points p' = m_points p \<and> tesser.more p' = tesser.more p))"
  using vertex_callBack_third [OF assms, of rnd add_vertex_to_polygon]
  by (simp add: third_vertex_stored_def)

theorem triangle_acceptance_witness:
  "triangle_accepted exact counter_clockwise 0 1 2
   \<and> vertex_callBack exact non_zero_add_vertex_to_polygon 2 (two_vertices_in counter_clockwise)
       = add_six_triangles exact non_zero_add_vertex_to_polygon
           (third_vertex_stored 0 1 2 (two_vertices_in counter_clockwise))
   \<and> triangle_accepted exact collinear 0 1 2 = False
   \<and> (\<exists>p'. vertex_callBack exact non_zero_add_vertex_to_polygon 2 (two_vertices_in collinear)
               = Some p'
         \<and> m_points p' = collinear
         \<and> tesser.more p' = tesser.more (two_vertices_in collinear))"
proof -
  have a: "triangle_accepted exact counter_clockwise 0 1 2"
    by (simp add: triangle_accepted_def counter_clockwise_def tesser_example_defs)
  have b: "m_temp_vert_count (two_vertices_in counter_clockwise) = 2"
    "m_temp_verts (two_vertices_in counter_clockwise) = (0, 1, 0)"
    "valid_vertex (m_points (two_vertices_in counter_clockwise)) 0"
    "valid_vertex (m_points (two_vertices_in counter_clockwise)) 1"
    "valid_vertex (m_points (two_vertices_in counter_clockwise)) 2"
    by (simp_all add: two_vertices_in_eq counter_clockwise_def tesser_example_defs)
  have c: "triangle_accepted exact collinear 0 1 2 = False"
    by (simp add: triangle_accepted_def collinear_def tesser_example_defs)
  have d: "m_temp_vert_count (two_vertices_in collinear) = 2"
    "m_temp_verts (two_vertices_in collinear) = (0, 1, 0)"
    "valid_vertex (m_points (two_vertices_in collinear)) 0"
    "valid_vertex (m_points (two_vertices_in collinear)) 1"
    "valid_vertex (m_points (two_vertices_in collinear)) 2"
    by (simp_all add: two_vertices_in_eq collinear_def tesser_example_defs)
  have e: "m_points (two_vertices_in counter_clockwise) = counter_clockwise"
    "m_points (two_vertices_in collinear) = collinear"
    by (simp_all add: two_vertices_in_eq)
  show ?thesis
    using triangle_acceptance [OF b, of exact non_zero_add_vertex_to_polygon]
      triangle_acceptance [OF d, of exact non_zero_add_vertex_to_polygon] a c
    by (simp only: e) simp
qed



end
